theory Spec2Isabelle
  imports Complex_Main "HOL-Library.Word"
begin

section \<open>Panics\<close>

text \<open>
  The library signals every violation with \<^verbatim>\<open>panic\<close>. The three messages of
  \<^verbatim>\<open>dict.go\<close> are the first three constructors:
  \<^verbatim>\<open>"dictionary is not initialized"\<close> (\<open>UninitializedError\<close>),
  \<^verbatim>\<open>"key %s does not exist"\<close> (\<open>KeyError\<close>) and
  \<^verbatim>\<open>"value %s not found"\<close> (\<open>ValueError\<close>).
  \<open>NilMapAssignment\<close> is the run-time panic of Go itself for an assignment to an entry
  of a nil map, \<open>UncomparableType\<close> its panic for a comparison of two interface values
  whose dynamic type is not comparable.
\<close>

datatype error = UninitializedError | KeyError | ValueError | NilMapAssignment | UncomparableType

section \<open>The store\<close>

text \<open>
  A Go map value is a reference to a map object, or nil. A \<^verbatim>\<open>Dict\<close> is a pointer to
  a \<^verbatim>\<open>mapDict\<close> struct, whose only field \<^verbatim>\<open>val\<close> is a map value. Both kinds
  of object live in a store: \<open>maps\<close> gives the fields of every map object,
  \<open>structs\<close> the \<^verbatim>\<open>val\<close> field of every struct (\<open>None\<close> is nil), and the two
  counters are the numbers of objects allocated so far; a new object takes the next
  address.

  The receiver of a method is an address, so it is never the nil pointer: the type
  \<^verbatim>\<open>mapDict\<close> is unexported and both constructors return the address of a new
  struct. The test \<^verbatim>\<open>ego == nil\<close> of \<^verbatim>\<open>assert\<close> is therefore always false
  and has no counterpart below.
\<close>

record ('k, 'v) heap =
  maps :: "nat \<Rightarrow> ('k \<rightharpoonup> 'v)"
  mapCount :: nat
  structs :: "nat \<Rightarrow> nat option"
  structCount :: nat

definition emptyHeap :: "('k, 'v) heap" where
  "emptyHeap = \<lparr>maps = (\<lambda>_. Map.empty), mapCount = 0, structs = (\<lambda>_. None), structCount = 0\<rparr>"

subsection \<open>The map primitives of Go\<close>

text \<open>\<^verbatim>\<open>make(map[K]V)\<close>: a new, empty map object.\<close>

definition makeMap :: "('k, 'v) heap \<Rightarrow> nat \<times> ('k, 'v) heap" where
  "makeMap h =
     (mapCount h, h\<lparr>maps := (maps h)(mapCount h := Map.empty), mapCount := Suc (mapCount h)\<rparr>)"

text \<open>\<^verbatim>\<open>&mapDict[K, V]{val}\<close>: a new struct holding the given map value.\<close>

definition newStruct :: "nat option \<Rightarrow> ('k, 'v) heap \<Rightarrow> nat \<times> ('k, 'v) heap" where
  "newStruct val h =
     (structCount h,
      h\<lparr>structs := (structs h)(structCount h := val), structCount := Suc (structCount h)\<rparr>)"

text \<open>
  Reading a map value: a nil map reads as the empty map (indexing, \<^verbatim>\<open>len\<close>,
  \<^verbatim>\<open>range\<close> and \<^verbatim>\<open>delete\<close> are all legal on it).
\<close>

definition mapRead :: "nat option \<Rightarrow> ('k, 'v) heap \<Rightarrow> ('k \<rightharpoonup> 'v)" where
  "mapRead val h = (case val of None \<Rightarrow> Map.empty | Some m \<Rightarrow> maps h m)"

text \<open>
  The index expression \<^verbatim>\<open>m[k]\<close> in its one-value form: the value stored at the
  key, and the zero value of \<^verbatim>\<open>V\<close> when the key is absent. The zero value of the
  value type is the \<open>0\<close> of class \<open>zero\<close>.
\<close>

definition mapIndex :: "('k \<rightharpoonup> 'v::zero) \<Rightarrow> 'k \<Rightarrow> 'v" where
  "mapIndex m k = (case m k of None \<Rightarrow> 0 | Some v \<Rightarrow> v)"

text \<open>\<^verbatim>\<open>len(m)\<close>: the number of keys.\<close>

definition len :: "('k \<rightharpoonup> 'v) \<Rightarrow> nat" where
  "len m = card (dom m)"

text \<open>\<^verbatim>\<open>m[k] = v\<close>: panics on a nil map.\<close>

definition mapAssign ::
  "nat option \<Rightarrow> 'k \<Rightarrow> 'v \<Rightarrow> ('k, 'v) heap \<Rightarrow> (error + unit) \<times> ('k, 'v) heap" where
  "mapAssign val k v h =
     (case val of
        None \<Rightarrow> (Inl NilMapAssignment, h)
      | Some m \<Rightarrow> (Inr (), h\<lparr>maps := (maps h)(m := (maps h m)(k \<mapsto> v))\<rparr>))"

text \<open>\<^verbatim>\<open>delete(m, k)\<close>: a no-op on a nil map and on an absent key.\<close>

definition mapDelete :: "nat option \<Rightarrow> 'k \<Rightarrow> ('k, 'v) heap \<Rightarrow> ('k, 'v) heap" where
  "mapDelete val k h =
     (case val of
        None \<Rightarrow> h
      | Some m \<Rightarrow> h\<lparr>maps := (maps h)(m := (maps h m)(k := None))\<rparr>)"

text \<open>
  \<^verbatim>\<open>for key, value := range m\<close> visits every field of the map once, in an order
  the language leaves open. Every loop below takes the sequence of fields that its
  \<^verbatim>\<open>range\<close> statement yields as a parameter; \<open>is_range es m\<close> says that \<open>es\<close> is
  such a sequence for the map \<open>m\<close>. No loop of the library changes the map it ranges
  over.
\<close>

definition is_range :: "('k \<times> 'v) list \<Rightarrow> ('k \<rightharpoonup> 'v) \<Rightarrow> bool" where
  "is_range es m = (distinct (map fst es) \<and> map_of es = m)"

subsection \<open>The comparison operators of Go\<close>

text \<open>
  The operator \<^verbatim>\<open>==\<close> on the value type \<^verbatim>\<open>V\<close> is not equality for every
  \<^verbatim>\<open>V\<close>: a floating-point NaN is not equal to itself, and comparing two interface
  values of the same uncomparable dynamic type panics. The methods that compare values
  take the operator of their value type as the parameter \<open>eq\<close>, whose result is the panic
  or the truth value; \<^verbatim>\<open>a != b\<close> is \<^verbatim>\<open>!(a == b)\<close>.

  The keys of a map are found by the equality of the key type. The maps of the store are
  HOL maps, so the key types covered are those on which \<^verbatim>\<open>==\<close> is equality
  (integers, strings, booleans and the like).
\<close>

text \<open>\<^verbatim>\<open>==\<close> on the integer types, the strings and the booleans.\<close>

definition eqPlain :: "'v \<Rightarrow> 'v \<Rightarrow> error + bool" where
  "eqPlain a b = Inr (a = b)"

text \<open>
  The values of \<^verbatim>\<open>float64\<close> as \<^verbatim>\<open>==\<close> sees them: NaN, the two infinities and
  the numbers (the two zeros are one number). The zero value is the number 0. A value
  equals itself and nothing else, except NaN, which equals nothing.
\<close>

datatype float64 = NaN | NegInf | Number real | PosInf

instantiation float64 :: zero
begin

definition zero_float64 :: float64 where
  "zero_float64 = Number 0"

instance ..

end

definition eqFloat64 :: "float64 \<Rightarrow> float64 \<Rightarrow> error + bool" where
  "eqFloat64 a b = Inr (a \<noteq> NaN \<and> a = b)"

section \<open>The dictionary (dict.go)\<close>

text \<open>
  A method that only reads returns \<open>error + 'a\<close> (\<open>Inl\<close> is the panic). A method
  that writes returns its result together with the store it leaves behind, also when it
  panics.
\<close>

definition NewDict :: "('k, 'v) heap \<Rightarrow> nat \<times> ('k, 'v) heap" where
  "NewDict h = (case makeMap h of (m, h1) \<Rightarrow> newStruct (Some m) h1)"

definition NewDictFrom :: "nat option \<Rightarrow> ('k, 'v) heap \<Rightarrow> nat \<times> ('k, 'v) heap" where
  "NewDictFrom goMap h = newStruct goMap h"

definition getVal :: "nat \<Rightarrow> ('k, 'v) heap \<Rightarrow> nat option" where
  "getVal ego h = structs h ego"

definition assert :: "nat \<Rightarrow> ('k, 'v) heap \<Rightarrow> error + unit" where
  "assert ego h = (if getVal ego h = None then Inl UninitializedError else Inr ())"

definition KeyExists :: "nat \<Rightarrow> 'k \<Rightarrow> ('k, 'v) heap \<Rightarrow> error + bool" where
  "KeyExists ego key h =
     (case assert ego h of
        Inl e \<Rightarrow> Inl e
      | Inr _ \<Rightarrow> Inr (mapRead (getVal ego h) h key \<noteq> None))"

definition checkKey :: "nat \<Rightarrow> 'k \<Rightarrow> ('k, 'v) heap \<Rightarrow> error + unit" where
  "checkKey ego key h =
     (case KeyExists ego key h of
        Inl e \<Rightarrow> Inl e
      | Inr ok \<Rightarrow> if \<not> ok then Inl KeyError else Inr ())"

definition Set ::
  "nat \<Rightarrow> 'k \<Rightarrow> 'v \<Rightarrow> ('k, 'v) heap \<Rightarrow> (error + nat) \<times> ('k, 'v) heap" where
  "Set ego key val h =
     (case assert ego h of
        Inl e \<Rightarrow> (Inl e, h)
      | Inr _ \<Rightarrow>
          (case mapAssign (getVal ego h) key val h of
             (Inl e, h') \<Rightarrow> (Inl e, h')
           | (Inr _, h') \<Rightarrow> (Inr ego, h')))"

fun Unset_loop ::
  "nat \<Rightarrow> 'k list \<Rightarrow> ('k, 'v) heap \<Rightarrow> (error + unit) \<times> ('k, 'v) heap" where
  "Unset_loop ego [] h = (Inr (), h)"
| "Unset_loop ego (key # keys) h =
     (case checkKey ego key h of
        Inl e \<Rightarrow> (Inl e, h)
      | Inr _ \<Rightarrow> Unset_loop ego keys (mapDelete (getVal ego h) key h))"

definition Unset ::
  "nat \<Rightarrow> 'k list \<Rightarrow> ('k, 'v) heap \<Rightarrow> (error + nat) \<times> ('k, 'v) heap" where
  "Unset ego keys h =
     (case assert ego h of
        Inl e \<Rightarrow> (Inl e, h)
      | Inr _ \<Rightarrow>
          (case Unset_loop ego keys h of
             (Inl e, h') \<Rightarrow> (Inl e, h')
           | (Inr _, h') \<Rightarrow> (Inr ego, h')))"

definition Clear :: "nat \<Rightarrow> ('k, 'v) heap \<Rightarrow> (error + nat) \<times> ('k, 'v) heap" where
  "Clear ego h =
     (case assert ego h of
        Inl e \<Rightarrow> (Inl e, h)
      | Inr _ \<Rightarrow>
          (case makeMap h of
             (m, h1) \<Rightarrow> (Inr ego, h1\<lparr>structs := (structs h1)(ego := Some m)\<rparr>)))"

definition Get :: "nat \<Rightarrow> 'k \<Rightarrow> ('k, 'v::zero) heap \<Rightarrow> error + 'v" where
  "Get ego key h =
     (case assert ego h of
        Inl e \<Rightarrow> Inl e
      | Inr _ \<Rightarrow>
          (case checkKey ego key h of
             Inl e \<Rightarrow> Inl e
           | Inr _ \<Rightarrow> Inr (mapIndex (mapRead (getVal ego h) h) key)))"

definition GoMap :: "nat \<Rightarrow> ('k, 'v) heap \<Rightarrow> error + nat option" where
  "GoMap ego h = (case assert ego h of Inl e \<Rightarrow> Inl e | Inr _ \<Rightarrow> Inr (getVal ego h))"

fun Clone_loop ::
  "nat \<Rightarrow> ('k \<times> 'v) list \<Rightarrow> ('k, 'v) heap \<Rightarrow> (error + unit) \<times> ('k, 'v) heap" where
  "Clone_loop obj [] h = (Inr (), h)"
| "Clone_loop obj ((key, val) # es) h =
     (case Set obj key val h of
        (Inl e, h') \<Rightarrow> (Inl e, h')
      | (Inr _, h') \<Rightarrow> Clone_loop obj es h')"

text \<open>\<open>es\<close> is what \<^verbatim>\<open>range ego.getVal()\<close> yields.\<close>

definition Clone ::
  "('k \<times> 'v) list \<Rightarrow> nat \<Rightarrow> ('k, 'v) heap \<Rightarrow> (error + nat) \<times> ('k, 'v) heap" where
  "Clone es ego h =
     (case NewDict h of
        (obj, h1) \<Rightarrow>
          (case Clone_loop obj es h1 of
             (Inl e, h2) \<Rightarrow> (Inl e, h2)
           | (Inr _, h2) \<Rightarrow> (Inr obj, h2)))"

definition Count :: "nat \<Rightarrow> ('k, 'v) heap \<Rightarrow> error + nat" where
  "Count ego h =
     (case assert ego h of Inl e \<Rightarrow> Inl e | Inr _ \<Rightarrow> Inr (len (mapRead (getVal ego h) h)))"

definition Empty :: "nat \<Rightarrow> ('k, 'v) heap \<Rightarrow> error + bool" where
  "Empty ego h = (case Count ego h of Inl e \<Rightarrow> Inl e | Inr n \<Rightarrow> Inr (n = 0))"

text \<open>
  The loop of \<^verbatim>\<open>Equals\<close>. The test \<^verbatim>\<open>ego.getVal()[k] != another.getVal()[k]\<close>
  is the operator of the value type: when it panics so does the loop, when it is true the
  loop returns false.
\<close>

fun Equals_loop ::
  "('v \<Rightarrow> 'v \<Rightarrow> error + bool) \<Rightarrow> nat \<Rightarrow> nat \<Rightarrow> 'k list \<Rightarrow> ('k, 'v::zero) heap \<Rightarrow>
   error + bool" where
  "Equals_loop eq ego another [] h = Inr True"
| "Equals_loop eq ego another (k # ks) h =
     (case eq (mapIndex (mapRead (getVal ego h) h) k)
              (mapIndex (mapRead (getVal another h) h) k) of
        Inl e \<Rightarrow> Inl e
      | Inr same \<Rightarrow>
          if \<not> same then Inr False
          else Equals_loop eq ego another ks h)"

text \<open>
  \<open>es\<close> is what \<^verbatim>\<open>range ego.getVal()\<close> yields; the loop uses the keys only.
  \<^verbatim>\<open>another\<close> is a \<^verbatim>\<open>mapDict\<close> as well, the only implementation of the
  interface in the library.
\<close>

definition Equals ::
  "('v \<Rightarrow> 'v \<Rightarrow> error + bool) \<Rightarrow> ('k \<times> 'v) list \<Rightarrow> nat \<Rightarrow> nat \<Rightarrow> ('k, 'v::zero) heap \<Rightarrow>
   error + bool" where
  "Equals eq es ego another h =
     (case Count ego h of
        Inl e \<Rightarrow> Inl e
      | Inr n \<Rightarrow>
          (case Count another h of
             Inl e \<Rightarrow> Inl e
           | Inr n' \<Rightarrow>
               if n \<noteq> n' then Inr False
               else Equals_loop eq ego another (map fst es) h))"

text \<open>
  \<^verbatim>\<open>ForEach\<close> runs a function of the caller, which may write to whatever it has
  captured. The function is therefore a transition on the state \<open>'w\<close> of the whole
  program, in which \<open>view\<close> finds the store of the dictionary's own type; a panic of
  the function ends the loop. \<open>es\<close> is what \<^verbatim>\<open>range ego.getVal()\<close> yields.
\<close>

fun ForEach_loop ::
  "('k \<times> 'v) list \<Rightarrow> ('k \<Rightarrow> 'v \<Rightarrow> 'w \<Rightarrow> (error + unit) \<times> 'w) \<Rightarrow> 'w \<Rightarrow> (error + unit) \<times> 'w" where
  "ForEach_loop [] function w = (Inr (), w)"
| "ForEach_loop ((key, item) # es) function w =
     (case function key item w of
        (Inl e, w') \<Rightarrow> (Inl e, w')
      | (Inr _, w') \<Rightarrow> ForEach_loop es function w')"

definition ForEach ::
  "('w \<Rightarrow> ('k, 'v) heap) \<Rightarrow> ('k \<times> 'v) list \<Rightarrow> nat \<Rightarrow>
   ('k \<Rightarrow> 'v \<Rightarrow> 'w \<Rightarrow> (error + unit) \<times> 'w) \<Rightarrow> 'w \<Rightarrow> (error + nat) \<times> 'w" where
  "ForEach view es ego function w =
     (case assert ego (view w) of
        Inl e \<Rightarrow> (Inl e, w)
      | Inr _ \<Rightarrow>
          (case ForEach_loop es function w of
             (Inl e, w') \<Rightarrow> (Inl e, w')
           | (Inr _, w') \<Rightarrow> (Inr ego, w')))"

text \<open>A call whose result value is dropped, as in the bodies of the function literals.\<close>

definition discard :: "(error + 'a) \<times> 'w \<Rightarrow> (error + unit) \<times> 'w" where
  "discard r = (case r of (Inl e, w) \<Rightarrow> (Inl e, w) | (Inr _, w) \<Rightarrow> (Inr (), w))"

text \<open>
  \<open>es_ego\<close> is what the \<^verbatim>\<open>range\<close> of \<^verbatim>\<open>ego.Clone()\<close> yields, \<open>es_another\<close>
  what the \<^verbatim>\<open>range\<close> of \<^verbatim>\<open>another.ForEach\<close> yields.
\<close>

definition Merge ::
  "('k \<times> 'v) list \<Rightarrow> ('k \<times> 'v) list \<Rightarrow> nat \<Rightarrow> nat \<Rightarrow> ('k, 'v) heap \<Rightarrow>
   (error + nat) \<times> ('k, 'v) heap" where
  "Merge es_ego es_another ego another h =
     (case assert ego h of
        Inl e \<Rightarrow> (Inl e, h)
      | Inr _ \<Rightarrow>
          (case Clone es_ego ego h of
             (Inl e, h1) \<Rightarrow> (Inl e, h1)
           | (Inr result, h1) \<Rightarrow>
               (case ForEach (\<lambda>w. w) es_another another
                       (\<lambda>key val w. discard (Set result key val w)) h1 of
                  (Inl e, h2) \<Rightarrow> (Inl e, h2)
                | (Inr _, h2) \<Rightarrow> (Inr result, h2))))"

fun Pluck_loop ::
  "nat \<Rightarrow> nat \<Rightarrow> 'k list \<Rightarrow> ('k, 'v::zero) heap \<Rightarrow> (error + unit) \<times> ('k, 'v) heap" where
  "Pluck_loop ego result [] h = (Inr (), h)"
| "Pluck_loop ego result (key # keys) h =
     (case Get ego key h of
        Inl e \<Rightarrow> (Inl e, h)
      | Inr v \<Rightarrow>
          (case Set result key v h of
             (Inl e, h') \<Rightarrow> (Inl e, h')
           | (Inr _, h') \<Rightarrow> Pluck_loop ego result keys h'))"

definition Pluck ::
  "nat \<Rightarrow> 'k list \<Rightarrow> ('k, 'v::zero) heap \<Rightarrow> (error + nat) \<times> ('k, 'v) heap" where
  "Pluck ego keys h =
     (case assert ego h of
        Inl e \<Rightarrow> (Inl e, h)
      | Inr _ \<Rightarrow>
          (case NewDict h of
             (result, h1) \<Rightarrow>
               (case Pluck_loop ego result keys h1 of
                  (Inl e, h2) \<Rightarrow> (Inl e, h2)
                | (Inr _, h2) \<Rightarrow> (Inr result, h2))))"

text \<open>
  The loops of \<^verbatim>\<open>Contains\<close> and \<^verbatim>\<open>KeyOf\<close> test \<^verbatim>\<open>item == value\<close> with the
  operator of the value type.
\<close>

fun Contains_loop ::
  "('v \<Rightarrow> 'v \<Rightarrow> error + bool) \<Rightarrow> 'v \<Rightarrow> ('k \<times> 'v) list \<Rightarrow> error + bool" where
  "Contains_loop eq val [] = Inr False"
| "Contains_loop eq val ((key, item) # es) =
     (case eq item val of
        Inl e \<Rightarrow> Inl e
      | Inr same \<Rightarrow> if same then Inr True else Contains_loop eq val es)"

definition Contains ::
  "('v \<Rightarrow> 'v \<Rightarrow> error + bool) \<Rightarrow> ('k \<times> 'v) list \<Rightarrow> nat \<Rightarrow> 'v \<Rightarrow> ('k, 'v) heap \<Rightarrow>
   error + bool" where
  "Contains eq es ego val h =
     (case assert ego h of Inl e \<Rightarrow> Inl e | Inr _ \<Rightarrow> Contains_loop eq val es)"

fun KeyOf_loop ::
  "('v \<Rightarrow> 'v \<Rightarrow> error + bool) \<Rightarrow> 'v \<Rightarrow> ('k \<times> 'v) list \<Rightarrow> error + 'k" where
  "KeyOf_loop eq val [] = Inl ValueError"
| "KeyOf_loop eq val ((key, item) # es) =
     (case eq item val of
        Inl e \<Rightarrow> Inl e
      | Inr same \<Rightarrow> if same then Inr key else KeyOf_loop eq val es)"

definition KeyOf ::
  "('v \<Rightarrow> 'v \<Rightarrow> error + bool) \<Rightarrow> ('k \<times> 'v) list \<Rightarrow> nat \<Rightarrow> 'v \<Rightarrow> ('k, 'v) heap \<Rightarrow>
   error + 'k" where
  "KeyOf eq es ego val h =
     (case assert ego h of Inl e \<Rightarrow> Inl e | Inr _ \<Rightarrow> KeyOf_loop eq val es)"

fun Map_loop ::
  "nat \<Rightarrow> ('k \<Rightarrow> 'v \<Rightarrow> 'v) \<Rightarrow> ('k \<times> 'v) list \<Rightarrow> ('k, 'v) heap \<Rightarrow>
   (error + unit) \<times> ('k, 'v) heap" where
  "Map_loop result function [] h = (Inr (), h)"
| "Map_loop result function ((key, item) # es) h =
     (case Set result key (function key item) h of
        (Inl e, h') \<Rightarrow> (Inl e, h')
      | (Inr _, h') \<Rightarrow> Map_loop result function es h')"

definition Map ::
  "('k \<times> 'v) list \<Rightarrow> nat \<Rightarrow> ('k \<Rightarrow> 'v \<Rightarrow> 'v) \<Rightarrow> ('k, 'v) heap \<Rightarrow>
   (error + nat) \<times> ('k, 'v) heap" where
  "Map es ego function h =
     (case assert ego h of
        Inl e \<Rightarrow> (Inl e, h)
      | Inr _ \<Rightarrow>
          (case NewDict h of
             (result, h1) \<Rightarrow>
               (case Map_loop result function es h1 of
                  (Inl e, h2) \<Rightarrow> (Inl e, h2)
                | (Inr _, h2) \<Rightarrow> (Inr result, h2))))"

section \<open>Additional tools (collection.go)\<close>

text \<open>
  The argument of \<^verbatim>\<open>toString\<close> is a value of type \<^verbatim>\<open>any\<close>; the type switch
  looks at its dynamic type. \<open>gval\<close> has one constructor for nil and one for each
  dynamic type that the switch renders by itself: strings, booleans and the nine integer
  types (\<^verbatim>\<open>int\<close> taken as 64 bits wide). \<open>VOther\<close> stands for a value of any
  remaining type (the two floating-point types, a \<^verbatim>\<open>fmt.Stringer\<close>, anything else)
  and carries the text that \<^verbatim>\<open>strconv.FormatFloat\<close>, its \<^verbatim>\<open>String\<close> method or
  \<^verbatim>\<open>fmt.Sprintf("%+v", val)\<close> returns for it.
\<close>

datatype gval =
    VNil
  | VString string
  | VBool bool
  | VInt "64 word"
  | VInt64 "64 word"
  | VInt32 "32 word"
  | VInt16 "16 word"
  | VInt8 "8 word"
  | VUint64 "64 word"
  | VUint32 "32 word"
  | VUint16 "16 word"
  | VUint8 "8 word"
  | VOther string

text \<open>The zero value of \<^verbatim>\<open>any\<close> is nil.\<close>

instantiation gval :: zero
begin

definition zero_gval :: gval where
  "zero_gval = VNil"

instance ..

end

subsection \<open>The functions of package strconv that toString calls\<close>

text \<open>The decimal digits of a natural number, most significant first.\<close>

function decimal :: "nat \<Rightarrow> string" where
  "decimal n =
     (if n < 10 then [''0123456789'' ! n]
      else decimal (n div 10) @ [''0123456789'' ! (n mod 10)])"
  by pat_completeness auto
termination
  by (relation "measure (\<lambda>n. n)") auto

text \<open>\<^verbatim>\<open>strconv.FormatUint(i, 10)\<close>, \<^verbatim>\<open>strconv.FormatInt(i, 10)\<close>,
  \<^verbatim>\<open>strconv.Itoa(i)\<close> and \<^verbatim>\<open>strconv.FormatBool(b)\<close>.\<close>

definition FormatUint :: "64 word \<Rightarrow> string" where
  "FormatUint i = decimal (unat i)"

definition FormatInt :: "64 word \<Rightarrow> string" where
  "FormatInt i = (if sint i < 0 then CHR ''-'' # decimal (nat (- sint i)) else decimal (nat (sint i)))"

definition Itoa :: "64 word \<Rightarrow> string" where
  "Itoa i = FormatInt i"

definition FormatBool :: "bool \<Rightarrow> string" where
  "FormatBool b = (if b then ''true'' else ''false'')"

subsection \<open>toString\<close>

text \<open>
  \<^verbatim>\<open>strconv.Quote\<close> escapes by the Unicode tables of the Go distribution; it is the
  parameter \<open>Quote\<close>. The conversions \<^verbatim>\<open>int64(val)\<close> and \<^verbatim>\<open>uint64(val)\<close> are
  \<open>scast\<close> and \<open>ucast\<close>.
\<close>

fun toString :: "(string \<Rightarrow> string) \<Rightarrow> gval \<Rightarrow> string" where
  "toString Quote VNil = ''null''"
| "toString Quote (VString val) = Quote val"
| "toString Quote (VBool val) = FormatBool val"
| "toString Quote (VInt val) = Itoa val"
| "toString Quote (VInt64 val) = FormatInt val"
| "toString Quote (VInt32 val) = FormatInt (scast val)"
| "toString Quote (VInt16 val) = FormatInt (scast val)"
| "toString Quote (VInt8 val) = FormatInt (scast val)"
| "toString Quote (VUint64 val) = FormatUint val"
| "toString Quote (VUint32 val) = FormatUint (ucast val)"
| "toString Quote (VUint16 val) = FormatUint (ucast val)"
| "toString Quote (VUint8 val) = FormatUint (ucast val)"
| "toString Quote (VOther val) = val"

subsection \<open>String (dict.go)\<close>

text \<open>
  The loop of \<^verbatim>\<open>String\<close>, with the counter \<open>i\<close> and the text built so far;
  \<open>n\<close> is \<^verbatim>\<open>len(ego.getVal())\<close>, which the loop does not change.
\<close>

fun String_loop ::
  "(string \<Rightarrow> string) \<Rightarrow> nat \<Rightarrow> (gval \<times> gval) list \<Rightarrow> nat \<Rightarrow> string \<Rightarrow> string" where
  "String_loop Quote n [] i result = result"
| "String_loop Quote n ((key, val) # es) i result =
     String_loop Quote n es (i + 1)
       (if i + 1 < n
        then (result @ toString Quote key @ '':'' @ toString Quote val) @ '',''
        else result @ toString Quote key @ '':'' @ toString Quote val)"

definition String ::
  "(string \<Rightarrow> string) \<Rightarrow> (gval \<times> gval) list \<Rightarrow> nat \<Rightarrow> (gval, gval) heap \<Rightarrow> string" where
  "String Quote es ego h =
     String_loop Quote (len (mapRead (getVal ego h) h)) es 0 ''{'' @ ''}''"

subsection \<open>MapDict\<close>

text \<open>
  The dictionaries of type \<^verbatim>\<open>Dict[K, V]\<close> and those of type \<^verbatim>\<open>Dict[K, N]\<close>
  live in two stores; the state of the program is the pair of them.
\<close>

definition MapDict ::
  "('k \<times> 'v) list \<Rightarrow> nat \<Rightarrow> ('k \<Rightarrow> 'v \<Rightarrow> 'n) \<Rightarrow> ('k, 'v) heap \<times> ('k, 'n) heap \<Rightarrow>
   (error + nat) \<times> (('k, 'v) heap \<times> ('k, 'n) heap)" where
  "MapDict es dict function w =
     (case NewDict (snd w) of
        (new, hn) \<Rightarrow>
          (case ForEach fst es dict
                  (\<lambda>key val w'.
                     case Set new key (function key val) (snd w') of
                       (r, hn') \<Rightarrow> discard (r, (fst w', hn')))
                  (fst w, hn) of
             (Inl e, w1) \<Rightarrow> (Inl e, w1)
           | (Inr _, w1) \<Rightarrow> (Inr new, w1)))"

section \<open>Notions used to state the properties\<close>

text \<open>The fields of a dictionary: what its backing store reads as.\<close>

definition contents :: "nat \<Rightarrow> ('k, 'v) heap \<Rightarrow> ('k \<rightharpoonup> 'v)" where
  "contents ego h = mapRead (getVal ego h) h"

text \<open>
  An initialized dictionary: an allocated struct whose \<^verbatim>\<open>val\<close> field refers to an
  allocated map object.
\<close>

definition initialized :: "nat \<Rightarrow> ('k, 'v) heap \<Rightarrow> bool" where
  "initialized ego h =
     (ego < structCount h \<and> (case getVal ego h of None \<Rightarrow> False | Some m \<Rightarrow> m < mapCount h))"

text \<open>Every object that exists in \<open>h\<close> exists in \<open>h'\<close> and is the same there.\<close>

definition unchanged :: "('k, 'v) heap \<Rightarrow> ('k, 'v) heap \<Rightarrow> bool" where
  "unchanged h h' =
     (structCount h \<le> structCount h' \<and> mapCount h \<le> mapCount h' \<and>
      (\<forall>p < structCount h. structs h' p = structs h p) \<and>
      (\<forall>m < mapCount h. maps h' m = maps h m))"

text \<open>Texts separated by single commas, and the rendering of one field.\<close>

fun joinFields :: "string list \<Rightarrow> string" where
  "joinFields [] = []"
| "joinFields [f] = f"
| "joinFields (f # g # fs) = f @ '','' @ joinFields (g # fs)"

definition renderField :: "(string \<Rightarrow> string) \<Rightarrow> gval \<times> gval \<Rightarrow> string" where
  "renderField Quote e = toString Quote (fst e) @ '':'' @ toString Quote (snd e)"

text \<open>The decimal numeral of an integer.\<close>

definition numeralText :: "int \<Rightarrow> string" where
  "numeralText i = (if i < 0 then CHR ''-'' # decimal (nat (- i)) else decimal (nat i))"

subsection \<open>Example stores\<close>

text \<open>
  Each store is what the calls named in its definition leave behind, starting from the
  empty store. \<open>dict_nil\<close>: \<^verbatim>\<open>NewDictFrom(nil)\<close>, a dictionary without a backing
  store, at address 0.
\<close>

definition dict_nil :: "('k, 'v) heap" where
  "dict_nil = snd (NewDictFrom None emptyHeap)"

text \<open>\<open>dict_ab\<close>: the dictionary \<^verbatim>\<open>{"a": 1, "b": 2}\<close> at address 0.\<close>

definition dict_ab :: "(string, int) heap" where
  "dict_ab = snd (Set 0 ''b'' 2 (snd (Set 0 ''a'' 1 (snd (NewDict emptyHeap)))))"

text \<open>
  \<open>dict_xy\<close>: the dictionaries \<^verbatim>\<open>{"x": 0, "y": 1}\<close> at address 0 and
  \<^verbatim>\<open>{"y": 1, "z": 5}\<close> at address 1.
\<close>

definition dict_xy :: "(string, int) heap" where
  "dict_xy =
     snd (Set 1 ''z'' 5 (snd (Set 1 ''y'' 1 (snd (NewDict
       (snd (Set 0 ''y'' 1 (snd (Set 0 ''x'' 0 (snd (NewDict emptyHeap)))))))))))"

text \<open>
  \<open>dict_fs\<close>: the dictionaries \<^verbatim>\<open>{"first": 1, "second": 2}\<close> at address 0
  and \<^verbatim>\<open>{"second": 20, "third": 3}\<close> at address 1.
\<close>

definition dict_fs :: "(string, int) heap" where
  "dict_fs =
     snd (Set 1 ''third'' 3 (snd (Set 1 ''second'' 20 (snd (NewDict
       (snd (Set 0 ''second'' 2 (snd (Set 0 ''first'' 1 (snd (NewDict emptyHeap)))))))))))"

text \<open>
  \<open>dict_kj\<close>: the dictionaries \<^verbatim>\<open>{"k": 0}\<close> at address 0 and
  \<^verbatim>\<open>{"j": 7}\<close> at address 1.
\<close>

definition dict_kj :: "(string, int) heap" where
  "dict_kj =
     snd (Set 1 ''j'' 7 (snd (NewDict (snd (Set 0 ''k'' 0 (snd (NewDict emptyHeap)))))))"

text \<open>
  \<open>dict_nan\<close>: the dictionary \<^verbatim>\<open>{"a": NaN}\<close> of type
  \<^verbatim>\<open>Dict[string, float64]\<close> at address 0.
\<close>

definition dict_nan :: "(string, float64) heap" where
  "dict_nan = snd (Set 0 ''a'' NaN (snd (NewDict emptyHeap)))"

text \<open>
  \<open>dict_json\<close>: the dictionary \<^verbatim>\<open>{"first": 1, "second": 2}\<close> of the test
  \<^verbatim>\<open>basics\<close>, of type \<^verbatim>\<open>Dict[string, int]\<close>, at address 0; \<open>quoteAscii\<close> is
  what \<^verbatim>\<open>strconv.Quote\<close> returns for a text of letters.
\<close>

definition dict_json :: "(gval, gval) heap" where
  "dict_json =
     snd (Set 0 (VString ''second'') (VInt 2)
       (snd (Set 0 (VString ''first'') (VInt 1) (snd (NewDict emptyHeap)))))"

definition quoteAscii :: "string \<Rightarrow> string" where
  "quoteAscii s = CHR 0x22 # s @ [CHR 0x22]"

section \<open>Lemmas about the loops and the store\<close>

subsection \<open>The store\<close>

text \<open>
  Updates of the store, and what allocation leaves alone.
\<close>

lemma getVal_maps_update [simp]: "getVal ego (h\<lparr>maps := f\<rparr>) = getVal ego h"
  by (simp add: getVal_def)

lemma heap_maps_cong: "f = g \<Longrightarrow> h\<lparr>maps := f\<rparr> = h\<lparr>maps := g\<rparr>"
  by simp

lemma heap_maps_twice [simp]: "h\<lparr>maps := f\<rparr>\<lparr>maps := g\<rparr> = h\<lparr>maps := g\<rparr>"
  by simp

lemma mapDelete_Some:
  "mapDelete (Some m) k h = h\<lparr>maps := (maps h)(m := (maps h m)(k := None))\<rparr>"
  by (simp add: mapDelete_def)

lemma NewDict_eq:
  "NewDict h =
     (structCount h,
      h\<lparr>maps := (maps h)(mapCount h := Map.empty), mapCount := Suc (mapCount h),
        structs := (structs h)(structCount h := Some (mapCount h)),
        structCount := Suc (structCount h)\<rparr>)"
  by (simp add: NewDict_def makeMap_def newStruct_def)

lemma unchanged_alloc:
  "unchanged h (h\<lparr>maps := (maps h)(mapCount h := f), mapCount := Suc (mapCount h),
        structs := (structs h)(structCount h := Some (mapCount h)),
        structCount := Suc (structCount h)\<rparr>)"
  by (simp add: unchanged_def)

subsection \<open>Initialized and uninitialized dictionaries\<close>

text \<open>
  On an initialized dictionary \<^verbatim>\<open>assert\<close> returns, and the methods that read one key
  are decided by the map object. Without a backing store, every method that calls
  \<^verbatim>\<open>assert\<close>, directly or through another method, panics and leaves the store as it
  was.
\<close>

lemma initializedD:
  assumes "initialized ego h"
  obtains m where "getVal ego h = Some m" "m < mapCount h" "ego < structCount h"
    "contents ego h = maps h m"
  using assms by (auto simp: initialized_def contents_def mapRead_def split: option.splits)

lemma assert_Some [simp]: "getVal ego h = Some m \<Longrightarrow> assert ego h = Inr ()"
  by (simp add: assert_def)

lemma assert_None [simp]: "getVal ego h = None \<Longrightarrow> assert ego h = Inl UninitializedError"
  by (simp add: assert_def)

lemma KeyExists_Some:
  "getVal ego h = Some m \<Longrightarrow> KeyExists ego key h = Inr (key \<in> dom (maps h m))"
  by (auto simp: KeyExists_def mapRead_def)

lemma checkKey_Some:
  "getVal ego h = Some m \<Longrightarrow>
   checkKey ego key h = (if key \<in> dom (maps h m) then Inr () else Inl KeyError)"
  by (simp add: checkKey_def KeyExists_Some)

lemma Get_Some:
  "getVal ego h = Some m \<Longrightarrow>
   Get ego key h = (case maps h m key of None \<Rightarrow> Inl KeyError | Some v \<Rightarrow> Inr v)"
  by (auto simp: Get_def checkKey_Some mapRead_def mapIndex_def split: option.splits)

lemma Set_Some:
  "getVal ego h = Some m \<Longrightarrow>
   Set ego key val h = (Inr ego, h\<lparr>maps := (maps h)(m := (maps h m)(key \<mapsto> val))\<rparr>)"
  by (simp add: Set_def mapAssign_def)

lemma Count_initialized: "initialized ego h \<Longrightarrow> Count ego h = Inr (len (contents ego h))"
  by (erule initializedD) (simp add: Count_def contents_def)

lemma uninitialized_panics:
  assumes "getVal ego h = None"
  shows "Set ego key val h = (Inl UninitializedError, h)"
    and "Unset ego keys h = (Inl UninitializedError, h)"
    and "Clear ego h = (Inl UninitializedError, h)"
    and "Get ego key h = Inl UninitializedError"
    and "GoMap ego h = Inl UninitializedError"
    and "Count ego h = Inl UninitializedError"
    and "Empty ego h = Inl UninitializedError"
    and "Equals eq es ego another h = Inl UninitializedError"
    and "Merge es es' ego another h = (Inl UninitializedError, h)"
    and "Pluck ego keys h = (Inl UninitializedError, h)"
    and "Contains eq es ego val h = Inl UninitializedError"
    and "KeyOf eq es ego val h = Inl UninitializedError"
    and "KeyExists ego key h = Inl UninitializedError"
    and "ForEach (\<lambda>w. w) es ego function h = (Inl UninitializedError, h)"
    and "Map es ego g h = (Inl UninitializedError, h)"
  using assms
  by (simp_all add: Set_def Unset_def Clear_def Get_def GoMap_def Count_def Empty_def Equals_def
      Merge_def Pluck_def Contains_def KeyOf_def KeyExists_def ForEach_def Map_def)

lemma unchanged_initialized:
  "unchanged h h' \<Longrightarrow> initialized ego h \<Longrightarrow> initialized ego h'"
  by (auto simp: unchanged_def initialized_def getVal_def split: option.splits)

lemma unchanged_contents:
  "unchanged h h' \<Longrightarrow> initialized ego h \<Longrightarrow> contents ego h' = contents ego h"
  by (erule initializedD) (simp add: unchanged_def contents_def getVal_def mapRead_def)

subsection \<open>Sequences of fields\<close>

lemma is_range_keys: "is_range es m \<Longrightarrow> set (map fst es) = dom m"
  by (metis dom_map_of_conv_image_fst is_range_def list.set_map)

lemma is_range_len: "is_range es m \<Longrightarrow> len m = length es"
proof -
  assume r: "is_range es m"
  then have "card (set (map fst es)) = length (map fst es)"
    by (intro distinct_card) (simp add: is_range_def)
  then show ?thesis
    by (simp only: len_def is_range_keys [OF r] length_map)
qed

lemma map_of_rev_distinct: "distinct (map fst es) \<Longrightarrow> map_of (rev es) = map_of es"
proof (induction es)
  case Nil
  then show ?case by simp
next
  case (Cons e es)
  obtain k v where e: "e = (k, v)" by (cases e)
  have n: "map_of es k = None"
    using Cons.prems by (simp add: e map_of_eq_None_iff)
  have ih: "map_of (rev es) = map_of es"
    using Cons by simp
  show ?case
    using n by (auto simp: e ih fun_eq_iff map_add_def split: option.splits)
qed

lemma map_of_map_keyed:
  "map_of (map (\<lambda>(k, v). (k, f k v)) es) k = map_option (f k) (map_of es k)"
  by (induction es) auto

lemma map_fst_map_keyed: "map fst (map (\<lambda>(k, v). (k, f k v)) es) = map fst es"
  by (induction es) auto

subsection \<open>Unset\<close>

text \<open>
  The loop succeeds exactly when the keys are in the dictionary and pairwise distinct; when
  it fails, it has removed the keys before the failing one.
\<close>

lemma Unset_loop_result:
  "getVal ego h = Some m \<Longrightarrow>
   fst (Unset_loop ego keys h) =
     (if distinct keys \<and> set keys \<subseteq> dom (maps h m) then Inr () else Inl KeyError)"
proof (induction keys arbitrary: h)
  case Nil
  then show ?case by simp
next
  case (Cons key keys)
  let ?h1 = "mapDelete (getVal ego h) key h"
  have g: "getVal ego ?h1 = Some m" using Cons.prems by (simp add: mapDelete_def)
  have d: "dom (maps ?h1 m) = dom (maps h m) - {key}"
    using Cons.prems by (simp add: mapDelete_def)
  show ?case
    using Cons.prems Cons.IH [OF g] d by (auto simp: checkKey_Some)
qed

lemma Unset_loop_heap:
  "getVal ego h = Some m \<Longrightarrow> distinct pre \<Longrightarrow> set pre \<subseteq> dom (maps h m) \<Longrightarrow>
   key \<notin> dom (maps h m) - set pre \<Longrightarrow>
   Unset_loop ego (pre @ key # post) h =
     (Inl KeyError, h\<lparr>maps := (maps h)(m := maps h m |` (- set pre))\<rparr>)"
proof (induction pre arbitrary: h)
  case Nil
  then show ?case by (simp add: checkKey_Some)
next
  case (Cons p pre)
  let ?h1 = "h\<lparr>maps := (maps h)(m := (maps h m)(p := None))\<rparr>"
  have g: "getVal ego ?h1 = Some m" using Cons.prems by simp
  have step: "Unset_loop ego ((p # pre) @ key # post) h = Unset_loop ego (pre @ key # post) ?h1"
    using Cons.prems by (simp add: checkKey_Some mapDelete_Some)
  have ih: "Unset_loop ego (pre @ key # post) ?h1 =
     (Inl KeyError, ?h1\<lparr>maps := (maps ?h1)(m := maps ?h1 m |` (- set pre))\<rparr>)"
    using Cons.prems by (intro Cons.IH [OF g]) (auto split: if_splits)
  have "?h1\<lparr>maps := (maps ?h1)(m := maps ?h1 m |` (- set pre))\<rparr> =
        h\<lparr>maps := (maps ?h1)(m := maps ?h1 m |` (- set pre))\<rparr>"
    by simp
  also have "\<dots> = h\<lparr>maps := (maps h)(m := maps h m |` (- set (p # pre)))\<rparr>"
    by (rule heap_maps_cong) (auto simp: restrict_map_def fun_eq_iff)
  finally have e: "?h1\<lparr>maps := (maps ?h1)(m := maps ?h1 m |` (- set pre))\<rparr> =
        h\<lparr>maps := (maps h)(m := maps h m |` (- set (p # pre)))\<rparr>" .
  show ?case by (simp only: step ih e)
qed

lemma Unset_initialized:
  "initialized ego h \<Longrightarrow> Unset ego keys h =
     (case Unset_loop ego keys h of (Inl e, h') \<Rightarrow> (Inl e, h') | (Inr _, h') \<Rightarrow> (Inr ego, h'))"
  by (erule initializedD) (simp add: Unset_def)

lemma Unset_result:
  assumes "initialized ego h"
  shows "fst (Unset ego keys h) =
     (if distinct keys \<and> set keys \<subseteq> dom (contents ego h) then Inr ego else Inl KeyError)"
proof -
  from assms obtain m where m: "getVal ego h = Some m" "contents ego h = maps h m"
    by (rule initializedD)
  have "fst (Unset ego keys h) =
     (case fst (Unset_loop ego keys h) of Inl e \<Rightarrow> Inl e | Inr _ \<Rightarrow> Inr ego)"
    by (simp add: Unset_initialized [OF assms] split: prod.splits sum.splits)
  then show ?thesis
    by (simp add: Unset_loop_result [OF m(1)] m(2))
qed

subsection \<open>Loops that fill a new dictionary\<close>

text \<open>
  The loops of \<^verbatim>\<open>Clone\<close>, \<^verbatim>\<open>Map\<close>, \<^verbatim>\<open>Merge\<close> and \<^verbatim>\<open>MapDict\<close>
  all set the visited fields one after the other in one dictionary; a later field
  overwrites an earlier one with the same key.
\<close>

lemma Clone_loop_Some:
  "getVal obj h = Some mo \<Longrightarrow>
   Clone_loop obj es h = (Inr (), h\<lparr>maps := (maps h)(mo := maps h mo ++ map_of (rev es))\<rparr>)"
proof (induction es arbitrary: h)
  case Nil
  then show ?case by simp
next
  case (Cons e es)
  obtain k v where e: "e = (k, v)" by (cases e)
  let ?h1 = "h\<lparr>maps := (maps h)(mo := (maps h mo)(k \<mapsto> v))\<rparr>"
  have g: "getVal obj ?h1 = Some mo" using Cons.prems by simp
  have step: "Clone_loop obj (e # es) h = Clone_loop obj es ?h1"
    using Cons.prems by (simp add: e Set_Some)
  have "?h1\<lparr>maps := (maps ?h1)(mo := maps ?h1 mo ++ map_of (rev es))\<rparr> =
        h\<lparr>maps := (maps ?h1)(mo := maps ?h1 mo ++ map_of (rev es))\<rparr>"
    by simp
  also have "\<dots> = h\<lparr>maps := (maps h)(mo := maps h mo ++ map_of (rev (e # es)))\<rparr>"
    by (rule heap_maps_cong) (auto simp: e fun_eq_iff map_add_def split: option.splits)
  finally have eq: "?h1\<lparr>maps := (maps ?h1)(mo := maps ?h1 mo ++ map_of (rev es))\<rparr> =
        h\<lparr>maps := (maps h)(mo := maps h mo ++ map_of (rev (e # es)))\<rparr>" .
  show ?case by (simp only: step Cons.IH [OF g] eq)
qed

lemma Map_loop_Clone_loop:
  "Map_loop result function es h = Clone_loop result (map (\<lambda>(k, v). (k, function k v)) es) h"
  by (induction es arbitrary: h) (auto split: sum.splits prod.splits)

lemma ForEach_loop_Set:
  "ForEach_loop es (\<lambda>key val w. discard (Set result key val w)) h = Clone_loop result es h"
  by (induction es arbitrary: h) (auto simp: discard_def split: sum.splits prod.splits)

lemma ForEach_loop_MapDict:
  "ForEach_loop es
     (\<lambda>key val w'. case Set new key (function key val) (snd w') of
                      (r, hn') \<Rightarrow> discard (r, (fst w', hn')))
     (hs, hn) =
   (case Clone_loop new (map (\<lambda>(k, v). (k, function k v)) es) hn of
      (r, hn') \<Rightarrow> (r, (hs, hn')))"
  by (induction es arbitrary: hn) (auto simp: discard_def split: sum.splits prod.splits)

lemma Clone_eq:
  "Clone es ego h =
     (Inr (structCount h),
      h\<lparr>maps := (maps h)(mapCount h := map_of (rev es)), mapCount := Suc (mapCount h),
        structs := (structs h)(structCount h := Some (mapCount h)),
        structCount := Suc (structCount h)\<rparr>)"
proof -
  let ?h1 = "h\<lparr>maps := (maps h)(mapCount h := Map.empty), mapCount := Suc (mapCount h),
        structs := (structs h)(structCount h := Some (mapCount h)),
        structCount := Suc (structCount h)\<rparr>"
  have g: "getVal (structCount h) ?h1 = Some (mapCount h)"
    by (simp add: getVal_def)
  show ?thesis
    by (simp add: Clone_def NewDict_eq Clone_loop_Some [OF g])
qed

lemma Merge_eq:
  assumes "initialized ego h" and "initialized another h"
  shows "Merge es_ego es_another ego another h =
     (Inr (structCount h),
      h\<lparr>maps := (maps h)(mapCount h := map_of (rev es_ego) ++ map_of (rev es_another)),
        mapCount := Suc (mapCount h),
        structs := (structs h)(structCount h := Some (mapCount h)),
        structCount := Suc (structCount h)\<rparr>)"
proof -
  from assms(1) obtain m where m: "getVal ego h = Some m"
    by (rule initializedD)
  from assms(2) obtain m' where m': "getVal another h = Some m'" "another < structCount h"
    by (rule initializedD)
  let ?h1 = "h\<lparr>maps := (maps h)(mapCount h := map_of (rev es_ego)), mapCount := Suc (mapCount h),
        structs := (structs h)(structCount h := Some (mapCount h)),
        structCount := Suc (structCount h)\<rparr>"
  have g: "getVal (structCount h) ?h1 = Some (mapCount h)"
    by (simp add: getVal_def)
  have a: "getVal another ?h1 = Some m'"
    using m' by (simp add: getVal_def)
  show ?thesis
    using m
    by (simp add: Merge_def Clone_eq ForEach_def a ForEach_loop_Set Clone_loop_Some [OF g])
qed

lemma Merge_post:
  assumes "initialized a h" and "initialized b h"
    and "is_range es_a (contents a h)" and "is_range es_b (contents b h)"
  shows "fst (Merge es_a es_b a b h) = Inr (structCount h) \<and>
         getVal (structCount h) (snd (Merge es_a es_b a b h)) = Some (mapCount h) \<and>
         initialized (structCount h) (snd (Merge es_a es_b a b h)) \<and>
         contents (structCount h) (snd (Merge es_a es_b a b h)) = contents a h ++ contents b h \<and>
         unchanged h (snd (Merge es_a es_b a b h)) \<and>
         contents a (snd (Merge es_a es_b a b h)) = contents a h \<and>
         contents b (snd (Merge es_a es_b a b h)) = contents b h"
proof -
  let ?h' = "h\<lparr>maps := (maps h)(mapCount h := map_of (rev es_a) ++ map_of (rev es_b)),
        mapCount := Suc (mapCount h),
        structs := (structs h)(structCount h := Some (mapCount h)),
        structCount := Suc (structCount h)\<rparr>"
  have eq: "Merge es_a es_b a b h = (Inr (structCount h), ?h')"
    by (rule Merge_eq [OF assms(1,2)])
  have ra: "map_of (rev es_a) = contents a h"
    using assms(3) by (simp add: is_range_def map_of_rev_distinct)
  have rb: "map_of (rev es_b) = contents b h"
    using assms(4) by (simp add: is_range_def map_of_rev_distinct)
  have u: "unchanged h ?h'"
    by (rule unchanged_alloc)
  have i: "initialized (structCount h) ?h'"
    by (simp add: initialized_def getVal_def)
  have g: "getVal (structCount h) ?h' = Some (mapCount h)"
    by (simp add: getVal_def)
  have c: "contents (structCount h) ?h' = contents a h ++ contents b h"
    by (simp add: contents_def getVal_def mapRead_def ra [unfolded contents_def getVal_def]
        rb [unfolded contents_def getVal_def])
  show ?thesis
    unfolding eq fst_conv snd_conv
    using u i g c unchanged_contents [OF u assms(1)] unchanged_contents [OF u assms(2)]
    by blast
qed

lemma MapDict_eq:
  assumes "initialized dict hs"
  shows "MapDict es dict function (hs, hn) =
     (Inr (structCount hn),
      (hs, hn\<lparr>maps := (maps hn)(mapCount hn := map_of (rev (map (\<lambda>(k, v). (k, function k v)) es))),
        mapCount := Suc (mapCount hn),
        structs := (structs hn)(structCount hn := Some (mapCount hn)),
        structCount := Suc (structCount hn)\<rparr>))"
proof -
  from assms obtain m where m: "getVal dict hs = Some m"
    by (rule initializedD)
  let ?h1 = "hn\<lparr>maps := (maps hn)(mapCount hn := Map.empty), mapCount := Suc (mapCount hn),
        structs := (structs hn)(structCount hn := Some (mapCount hn)),
        structCount := Suc (structCount hn)\<rparr>"
  have g: "getVal (structCount hn) ?h1 = Some (mapCount hn)"
    by (simp add: getVal_def)
  show ?thesis
    using m
    by (simp add: MapDict_def NewDict_eq ForEach_def ForEach_loop_MapDict Clone_loop_Some [OF g])
qed

subsection \<open>Pluck\<close>

lemma Pluck_loop_result:
  "getVal ego h = Some m \<Longrightarrow> getVal result h = Some mr \<Longrightarrow> m \<noteq> mr \<Longrightarrow>
   fst (Pluck_loop ego result keys h) =
     (if set keys \<subseteq> dom (maps h m) then Inr () else Inl KeyError)"
proof (induction keys arbitrary: h)
  case Nil
  then show ?case by simp
next
  case (Cons key keys)
  show ?case
  proof (cases "maps h m key")
    case None
    then show ?thesis using Cons.prems by (auto simp: Get_Some)
  next
    case (Some v)
    let ?h1 = "h\<lparr>maps := (maps h)(mr := (maps h mr)(key \<mapsto> v))\<rparr>"
    have "fst (Pluck_loop ego result keys ?h1) =
         (if set keys \<subseteq> dom (maps ?h1 m) then Inr () else Inl KeyError)"
      using Cons.prems by (intro Cons.IH) auto
    then show ?thesis using Cons.prems Some by (auto simp: Get_Some Set_Some)
  qed
qed

lemma Pluck_loop_heap:
  "getVal ego h = Some m \<Longrightarrow> getVal result h = Some mr \<Longrightarrow> m \<noteq> mr \<Longrightarrow>
   set keys \<subseteq> dom (maps h m) \<Longrightarrow>
   Pluck_loop ego result keys h =
     (Inr (), h\<lparr>maps := (maps h)(mr := maps h mr ++ (maps h m |` set keys))\<rparr>)"
proof (induction keys arbitrary: h)
  case Nil
  then show ?case by simp
next
  case (Cons key keys)
  then obtain v where v: "maps h m key = Some v" by auto
  let ?h1 = "h\<lparr>maps := (maps h)(mr := (maps h mr)(key \<mapsto> v))\<rparr>"
  have step: "Pluck_loop ego result (key # keys) h = Pluck_loop ego result keys ?h1"
    using Cons.prems v by (simp add: Get_Some Set_Some)
  have ih: "Pluck_loop ego result keys ?h1 =
     (Inr (), ?h1\<lparr>maps := (maps ?h1)(mr := maps ?h1 mr ++ (maps ?h1 m |` set keys))\<rparr>)"
    using Cons.prems by (intro Cons.IH) auto
  have "?h1\<lparr>maps := (maps ?h1)(mr := maps ?h1 mr ++ (maps ?h1 m |` set keys))\<rparr> =
        h\<lparr>maps := (maps ?h1)(mr := maps ?h1 mr ++ (maps ?h1 m |` set keys))\<rparr>"
    by simp
  also have "\<dots> = h\<lparr>maps := (maps h)(mr := maps h mr ++ (maps h m |` set (key # keys)))\<rparr>"
    using Cons.prems v
    by (intro heap_maps_cong) (auto simp: fun_eq_iff map_add_def restrict_map_def split: option.splits)
  finally have eq: "?h1\<lparr>maps := (maps ?h1)(mr := maps ?h1 mr ++ (maps ?h1 m |` set keys))\<rparr> =
        h\<lparr>maps := (maps h)(mr := maps h mr ++ (maps h m |` set (key # keys)))\<rparr>" .
  show ?case by (simp only: step ih eq)
qed

lemma Pluck_eq:
  assumes "initialized ego h" and "set keys \<subseteq> dom (contents ego h)"
  shows "Pluck ego keys h =
     (Inr (structCount h),
      h\<lparr>maps := (maps h)(mapCount h := contents ego h |` set keys),
        mapCount := Suc (mapCount h),
        structs := (structs h)(structCount h := Some (mapCount h)),
        structCount := Suc (structCount h)\<rparr>)"
proof -
  from assms(1) obtain m where m: "getVal ego h = Some m" "m < mapCount h" "ego < structCount h"
    "contents ego h = maps h m"
    by (rule initializedD)
  let ?h1 = "h\<lparr>maps := (maps h)(mapCount h := Map.empty), mapCount := Suc (mapCount h),
        structs := (structs h)(structCount h := Some (mapCount h)),
        structCount := Suc (structCount h)\<rparr>"
  have g: "getVal (structCount h) ?h1 = Some (mapCount h)"
    by (simp add: getVal_def)
  have e: "getVal ego ?h1 = Some m"
    using m by (simp add: getVal_def)
  have s: "set keys \<subseteq> dom (maps ?h1 m)"
    using assms(2) m by simp
  have n: "m \<noteq> mapCount h" using m by simp
  have "Pluck_loop ego (structCount h) keys ?h1 =
     (Inr (), ?h1\<lparr>maps := (maps ?h1)(mapCount h := maps ?h1 (mapCount h) ++ (maps ?h1 m |` set keys))\<rparr>)"
    by (rule Pluck_loop_heap [OF e g n s])
  then show ?thesis
    using m by (simp add: Pluck_def NewDict_eq)
qed

lemma Pluck_result:
  assumes "initialized ego h"
  shows "fst (Pluck ego keys h) = Inl KeyError \<longleftrightarrow> \<not> set keys \<subseteq> dom (contents ego h)"
proof -
  from assms(1) obtain m where m: "getVal ego h = Some m" "m < mapCount h" "ego < structCount h"
    "contents ego h = maps h m"
    by (rule initializedD)
  let ?h1 = "h\<lparr>maps := (maps h)(mapCount h := Map.empty), mapCount := Suc (mapCount h),
        structs := (structs h)(structCount h := Some (mapCount h)),
        structCount := Suc (structCount h)\<rparr>"
  have g: "getVal (structCount h) ?h1 = Some (mapCount h)"
    by (simp add: getVal_def)
  have e: "getVal ego ?h1 = Some m"
    using m by (simp add: getVal_def)
  have n: "m \<noteq> mapCount h" using m by simp
  have "fst (Pluck_loop ego (structCount h) keys ?h1) =
     (if set keys \<subseteq> dom (maps ?h1 m) then Inr () else Inl KeyError)"
    by (rule Pluck_loop_result [OF e g n])
  then have r: "fst (Pluck_loop ego (structCount h) keys ?h1) =
     (if set keys \<subseteq> dom (contents ego h) then Inr () else Inl KeyError)"
    using m n by simp
  have "fst (Pluck ego keys h) =
     (case fst (Pluck_loop ego (structCount h) keys ?h1) of
        Inl e \<Rightarrow> Inl e | Inr _ \<Rightarrow> Inr (structCount h))"
    using m by (simp add: Pluck_def NewDict_eq split: prod.splits sum.splits)
  then show ?thesis
    by (simp only: r) (simp split: if_splits)
qed

subsection \<open>Equals\<close>

text \<open>
  What \<^verbatim>\<open>Equals\<close> computes on initialized dictionaries whose values are compared
  by equality: the numbers of fields agree, and at every key of the receiver the two index
  expressions agree, where an absent key of the argument indexes as the zero value. For
  any operator, \<^verbatim>\<open>Equals\<close> is true when the numbers of fields agree and the
  operator is true at every key of the receiver.
\<close>

lemma Equals_loop_plain:
  "Equals_loop eqPlain ego another ks h =
     Inr (\<forall>k\<in>set ks. mapIndex (mapRead (getVal ego h) h) k =
                        mapIndex (mapRead (getVal another h) h) k)"
  by (induction ks) (auto simp: eqPlain_def)

lemma Equals_loop_same:
  "(\<And>k. k \<in> set ks \<Longrightarrow>
      eq (mapIndex (mapRead (getVal ego h) h) k) (mapIndex (mapRead (getVal another h) h) k) =
        Inr True) \<Longrightarrow>
   Equals_loop eq ego another ks h = Inr True"
  by (induction ks) auto

lemma Equals_initialized:
  assumes "initialized ego h" and "initialized another h" and "is_range es (contents ego h)"
  shows "Equals eqPlain es ego another h =
     Inr (len (contents ego h) = len (contents another h) \<and>
          (\<forall>k\<in>dom (contents ego h).
             mapIndex (contents ego h) k = mapIndex (contents another h) k))"
proof -
  from assms(1) obtain m where m: "getVal ego h = Some m"
    by (rule initializedD)
  from assms(2) obtain m' where m': "getVal another h = Some m'"
    by (rule initializedD)
  show ?thesis
    using m m' is_range_keys [OF assms(3)]
    by (simp add: Equals_def Count_def Equals_loop_plain contents_def)
qed

lemma Equals_same:
  assumes "initialized ego h" and "initialized another h" and "is_range es (contents ego h)"
    and "contents ego h = contents another h"
    and "\<And>k v. contents ego h k = Some v \<Longrightarrow> eq v v = Inr True"
  shows "Equals eq es ego another h = Inr True"
proof -
  from assms(1) obtain m where m: "getVal ego h = Some m" "contents ego h = maps h m"
    by (rule initializedD)
  from assms(2) obtain m' where m': "getVal another h = Some m'" "contents another h = maps h m'"
    by (rule initializedD)
  have "eq (mapIndex (mapRead (getVal ego h) h) k) (mapIndex (mapRead (getVal another h) h) k) =
        Inr True" if "k \<in> set (map fst es)" for k
  proof -
    from that is_range_keys [OF assms(3)] obtain v where v: "contents ego h k = Some v"
      by auto
    then have "contents another h k = Some v"
      using assms(4) by simp
    with v assms(5) [OF v] show ?thesis
      by (simp add: contents_def mapIndex_def)
  qed
  then have "Equals_loop eq ego another (map fst es) h = Inr True"
    by (rule Equals_loop_same)
  then show ?thesis
    using m m' assms(4) by (simp add: Equals_def Count_def contents_def)
qed

subsection \<open>String and toString\<close>

lemma String_loop_join:
  "i + length es = n \<Longrightarrow>
   String_loop Quote n es i result = result @ joinFields (map (renderField Quote) es)"
proof (induction es arbitrary: i result)
  case Nil
  then show ?case by simp
next
  case (Cons e es)
  obtain key val where e: "e = (key, val)" by (cases e)
  show ?case
  proof (cases es)
    case Nil
    then show ?thesis using Cons.prems by (simp add: e renderField_def)
  next
    case (Cons e' es')
    have lt: "i + 1 < n" using Cons.prems Cons by simp
    have "String_loop Quote n (e # es) i result =
          String_loop Quote n es (i + 1)
            ((result @ toString Quote key @ '':'' @ toString Quote val) @ '','')"
      using lt by (simp add: e)
    also have "\<dots> = ((result @ toString Quote key @ '':'' @ toString Quote val) @ '','') @
          joinFields (map (renderField Quote) es)"
      using Cons.prems by (intro Cons.IH) simp
    also have "\<dots> = result @ joinFields (map (renderField Quote) (e # es))"
      by (simp add: e Cons renderField_def)
    finally show ?thesis .
  qed
qed

lemma String_eq:
  "is_range es (contents ego h) \<Longrightarrow>
   String Quote es ego h = ''{'' @ joinFields (map (renderField Quote) es) @ ''}''"
proof -
  assume r: "is_range es (contents ego h)"
  have n: "len (mapRead (getVal ego h) h) = length es"
    using is_range_len [OF r] by (simp add: contents_def)
  have "String_loop Quote (length es) es 0 ''{'' = ''{'' @ joinFields (map (renderField Quote) es)"
    by (rule String_loop_join) simp
  then show ?thesis
    by (simp add: String_def n)
qed

lemma sint_scast_32: "sint (scast (w :: 32 word) :: 64 word) = sint w"
  by (rule sint_up_scast) (simp add: is_up)

lemma sint_scast_16: "sint (scast (w :: 16 word) :: 64 word) = sint w"
  by (rule sint_up_scast) (simp add: is_up)

lemma sint_scast_8: "sint (scast (w :: 8 word) :: 64 word) = sint w"
  by (rule sint_up_scast) (simp add: is_up)

lemma uint_ucast_32: "uint (ucast (w :: 32 word) :: 64 word) = uint w"
  by (rule uint_up_ucast) (simp add: is_up)

lemma uint_ucast_16: "uint (ucast (w :: 16 word) :: 64 word) = uint w"
  by (rule uint_up_ucast) (simp add: is_up)

lemma uint_ucast_8: "uint (ucast (w :: 8 word) :: 64 word) = uint w"
  by (rule uint_up_ucast) (simp add: is_up)

lemma FormatInt_numeralText: "FormatInt i = numeralText (sint i)"
  by (simp add: FormatInt_def numeralText_def)

lemma FormatUint_numeralText: "FormatUint i = numeralText (uint i)"
  by (simp add: FormatUint_def numeralText_def)

lemma decimal_digits: "set (decimal n) \<subseteq> set ''0123456789'' \<and> decimal n \<noteq> []"
proof (induction n rule: decimal.induct)
  case (1 n)
  have d: "''0123456789'' ! k \<in> set ''0123456789''" if "k < 10" for k
    using that by (intro nth_mem) simp
  show ?case
  proof (cases "n < 10")
    case True
    then show ?thesis using d [of n] by (subst decimal.simps, subst decimal.simps) simp
  next
    case False
    have m: "n mod 10 < 10" by simp
    from False 1 have ih: "set (decimal (n div 10)) \<subseteq> set ''0123456789''" by simp
    show ?thesis
      using False ih d [OF m]
      by (subst decimal.simps, subst decimal.simps) simp
  qed
qed

lemma decimal_small: "n < 10 \<Longrightarrow> decimal n = [''0123456789'' ! n]"
  by (subst decimal.simps) simp

subsection \<open>The example stores\<close>

lemmas run_defs =
  NewDict_def NewDictFrom_def makeMap_def newStruct_def Set_def assert_def getVal_def
  mapAssign_def emptyHeap_def

lemmas read_defs = initialized_def contents_def getVal_def mapRead_def is_range_def

lemma dict_nil_eq:
  "dict_nil = \<lparr>maps = (\<lambda>_. Map.empty), mapCount = 0,
              structs = (\<lambda>_. None)(0 := None), structCount = 1\<rparr>"
  by (simp add: dict_nil_def run_defs)

lemma dict_ab_eq:
  "dict_ab = \<lparr>maps = (\<lambda>_. Map.empty)(0 := [''a'' \<mapsto> 1, ''b'' \<mapsto> 2]), mapCount = 1,
              structs = (\<lambda>_. None)(0 := Some 0), structCount = 1\<rparr>"
  by (simp add: dict_ab_def run_defs)

lemma dict_ab_initialized: "initialized 0 dict_ab"
  by (simp add: dict_ab_eq initialized_def getVal_def)

lemma dict_ab_contents: "contents 0 dict_ab = [''a'' \<mapsto> 1, ''b'' \<mapsto> 2]"
  by (simp add: dict_ab_eq contents_def getVal_def mapRead_def)

lemma dict_xy_eq:
  "dict_xy = \<lparr>maps = (\<lambda>_. Map.empty)(0 := [''x'' \<mapsto> 0, ''y'' \<mapsto> 1], 1 := [''y'' \<mapsto> 1, ''z'' \<mapsto> 5]),
              mapCount = 2, structs = (\<lambda>_. None)(0 := Some 0, 1 := Some 1), structCount = 2\<rparr>"
  by (simp add: dict_xy_def run_defs)

lemma dict_fs_eq:
  "dict_fs = \<lparr>maps = (\<lambda>_. Map.empty)(0 := [''first'' \<mapsto> 1, ''second'' \<mapsto> 2],
                                   1 := [''second'' \<mapsto> 20, ''third'' \<mapsto> 3]),
              mapCount = 2, structs = (\<lambda>_. None)(0 := Some 0, 1 := Some 1), structCount = 2\<rparr>"
  by (simp add: dict_fs_def run_defs)

lemma dict_kj_eq:
  "dict_kj = \<lparr>maps = (\<lambda>_. Map.empty)(0 := [''k'' \<mapsto> 0], 1 := [''j'' \<mapsto> 7]),
              mapCount = 2, structs = (\<lambda>_. None)(0 := Some 0, 1 := Some 1), structCount = 2\<rparr>"
  by (simp add: dict_kj_def run_defs)

lemma dict_nan_eq:
  "dict_nan = \<lparr>maps = (\<lambda>_. Map.empty)(0 := [''a'' \<mapsto> NaN]), mapCount = 1,
               structs = (\<lambda>_. None)(0 := Some 0), structCount = 1\<rparr>"
  by (simp add: dict_nan_def run_defs)

lemma dict_json_eq:
  "dict_json = \<lparr>maps = (\<lambda>_. Map.empty)(0 := [VString ''first'' \<mapsto> VInt 1, VString ''second'' \<mapsto> VInt 2]),
              mapCount = 1, structs = (\<lambda>_. None)(0 := Some 0), structCount = 1\<rparr>"
  by (simp add: dict_json_def run_defs)

section \<open>The properties\<close>

subsection \<open>C1: methods that do not assert initialization\<close>

text \<open>
  C1. Every method of the dictionary other than the constructors is to fail with
  UninitializedError when the backing store is absent. The methods \<^verbatim>\<open>String\<close>,
  \<^verbatim>\<open>Keys\<close>, \<^verbatim>\<open>Values\<close> and \<^verbatim>\<open>Clone\<close> do not call \<^verbatim>\<open>assert\<close>,
  and ranging over a nil map is legal. On the dictionary \<^verbatim>\<open>NewDictFrom(nil)\<close>, on
  which \<^verbatim>\<open>Count\<close> panics, \<^verbatim>\<open>String\<close> returns the text \<^verbatim>\<open>{}\<close> and
  \<^verbatim>\<open>Clone\<close> returns a new, initialized dictionary. (\<^verbatim>\<open>Keys\<close> and
  \<^verbatim>\<open>Values\<close> have the shape of \<^verbatim>\<open>Clone\<close>; the list they fill is built by
  \<^verbatim>\<open>list.go\<close>.) The fifteen other methods do fail: \<open>uninitialized_panics\<close>.
\<close>

theorem String_Clone_without_store:
  "getVal 0 (dict_nil :: (gval, gval) heap) = None \<and>
   String quoteAscii [] 0 dict_nil = ''{}'' \<and>
   fst (Clone [] 0 (dict_nil :: (gval, gval) heap)) = Inr 1 \<and>
   initialized 1 (snd (Clone [] 0 (dict_nil :: (gval, gval) heap))) \<and>
   Count 0 (dict_nil :: (gval, gval) heap) = Inl UninitializedError"
  by (simp add: dict_nil_eq String_def Clone_eq Count_def assert_def read_defs len_def)

subsection \<open>C2: Equals and keys absent from the other dictionary\<close>

text \<open>
  C2. \<^verbatim>\<open>a.Equals(b)\<close> is to be true exactly when \<open>a\<close> and \<open>b\<close> have the same
  number of fields and every key of \<open>a\<close> has in \<open>b\<close> the value it has in \<open>a\<close>. The
  loop compares \<^verbatim>\<open>ego.getVal()[k]\<close> with \<^verbatim>\<open>another.getVal()[k]\<close>, and the latter
  is the zero value when \<open>k\<close> is absent from \<^verbatim>\<open>another\<close>. The dictionaries
  \<^verbatim>\<open>{"k": 0}\<close> and \<^verbatim>\<open>{"j": 7}\<close> have one field each, the second holds no value
  at \<^verbatim>\<open>"k"\<close>, and \<^verbatim>\<open>Equals\<close> returns true. What \<^verbatim>\<open>Equals\<close> computes on
  initialized dictionaries with values compared by equality is \<open>Equals_initialized\<close>.
\<close>

theorem Equals_zero_value_true:
  "Count 0 dict_kj = Inr 1 \<and> Count 1 dict_kj = Inr 1 \<and>
   contents 0 dict_kj ''k'' = Some 0 \<and> contents 1 dict_kj ''k'' = None \<and>
   Equals eqPlain [(''k'', 0)] 0 1 dict_kj = Inr True"
  by (simp add: dict_kj_eq Equals_def Count_def assert_def read_defs len_def mapIndex_def eqPlain_def)

subsection \<open>C3: Unset fails in the middle of a batch\<close>

text \<open>
  C3, amended. When \<^verbatim>\<open>Unset\<close> is called on an initialized dictionary with the keys
  \<open>pre @ key # post\<close>, every key of \<open>pre\<close> is present when its turn comes (the keys of
  \<open>pre\<close> are in the dictionary and pairwise distinct) and \<open>key\<close> is absent when its turn
  comes (it is not in the dictionary, or it repeats a key of \<open>pre\<close>), the call fails with
  KeyError, and the dictionary it leaves behind is the original one without the keys of
  \<open>pre\<close>: the removals made before the failure are not rolled back.
\<close>

theorem Unset_fails_mid_batch:
  assumes "initialized ego h" and "distinct pre" and "set pre \<subseteq> dom (contents ego h)"
    and "key \<notin> dom (contents ego h) - set pre"
  shows "fst (Unset ego (pre @ key # post) h) = Inl KeyError \<and>
         contents ego (snd (Unset ego (pre @ key # post) h)) = contents ego h |` (- set pre)"
proof -
  from assms(1) obtain m where m: "getVal ego h = Some m" "contents ego h = maps h m"
    by (rule initializedD)
  have "Unset_loop ego (pre @ key # post) h =
     (Inl KeyError, h\<lparr>maps := (maps h)(m := maps h m |` (- set pre))\<rparr>)"
    using assms m by (intro Unset_loop_heap) auto
  then have "Unset ego (pre @ key # post) h =
     (Inl KeyError, h\<lparr>maps := (maps h)(m := maps h m |` (- set pre))\<rparr>)"
    by (simp add: Unset_initialized [OF assms(1)])
  then show ?thesis
    using m by (simp add: contents_def mapRead_def)
qed

theorem Unset_fails_mid_batch_witness:
  "initialized 0 dict_ab \<and> distinct [''a''] \<and> set [''a''] \<subseteq> dom (contents 0 dict_ab) \<and>
   ''z'' \<notin> dom (contents 0 dict_ab) - set [''a''] \<and>
   fst (Unset 0 [''a'', ''z'', ''b''] dict_ab) = Inl KeyError \<and>
   contents 0 (snd (Unset 0 [''a'', ''z'', ''b''] dict_ab)) = [''b'' \<mapsto> 2]"
proof -
  have r: "[''a'' \<mapsto> 1::int, ''b'' \<mapsto> 2] |` (- {''a''}) = [''b'' \<mapsto> 2]"
    by (auto simp: restrict_map_def fun_eq_iff)
  show ?thesis
    using Unset_fails_mid_batch [of 0 dict_ab "[''a'']" "''z''" "[''b'']"] r
    by (simp add: dict_ab_initialized dict_ab_contents)
qed

text \<open>
  C3 as stated places the failure at the first key that the dictionary does not hold, with
  every earlier key removed. \<^verbatim>\<open>Unset("a", "a", "b", "z")\<close> on \<^verbatim>\<open>{"a": 1, "b": 2}\<close>:
  \<^verbatim>\<open>"z"\<close> is the first such key, but the call fails at the second \<^verbatim>\<open>"a"\<close>, and
  \<^verbatim>\<open>"b"\<close> is still there afterwards.
\<close>

theorem Unset_repeated_key_counterexample:
  "contents 0 dict_ab ''a'' = Some 1 \<and> contents 0 dict_ab ''b'' = Some 2 \<and>
   contents 0 dict_ab ''z'' = None \<and>
   fst (Unset 0 [''a'', ''a'', ''b'', ''z''] dict_ab) = Inl KeyError \<and>
   contents 0 (snd (Unset 0 [''a'', ''a'', ''b'', ''z''] dict_ab)) ''b'' = Some 2"
  using Unset_loop_heap [of 0 dict_ab 0 "[''a'']" "''a''" "[''b'', ''z'']"]
  by (simp add: Unset_initialized [OF dict_ab_initialized] dict_ab_contents)
     (simp add: dict_ab_eq getVal_def contents_def mapRead_def restrict_map_def)

subsection \<open>C4: when Get, Unset and Pluck fail with KeyError\<close>

text \<open>
  C4, amended. On an initialized dictionary, \<^verbatim>\<open>Get\<close> fails with KeyError if and only
  if the key is absent; \<^verbatim>\<open>Unset\<close> fails with KeyError if and only if some given key
  is absent or is given more than once; \<^verbatim>\<open>Pluck\<close> fails with KeyError if and only if
  some requested key is absent. When no requested key is absent, \<^verbatim>\<open>Pluck\<close> returns a
  new dictionary whose fields are exactly the requested keys with the values of the source,
  and every object that existed before the call is unchanged.
\<close>

theorem KeyError_iff:
  assumes "initialized ego h"
  shows "(Get ego key h = Inl KeyError \<longleftrightarrow> key \<notin> dom (contents ego h)) \<and>
         (fst (Unset ego keys h) = Inl KeyError \<longleftrightarrow>
            \<not> (set keys \<subseteq> dom (contents ego h) \<and> distinct keys)) \<and>
         (fst (Pluck ego keys h) = Inl KeyError \<longleftrightarrow> \<not> set keys \<subseteq> dom (contents ego h)) \<and>
         (set keys \<subseteq> dom (contents ego h) \<longrightarrow>
            fst (Pluck ego keys h) = Inr (structCount h) \<and>
            initialized (structCount h) (snd (Pluck ego keys h)) \<and>
            contents (structCount h) (snd (Pluck ego keys h)) = contents ego h |` set keys \<and>
            unchanged h (snd (Pluck ego keys h)))"
proof -
  from assms obtain m where m: "getVal ego h = Some m" "contents ego h = maps h m"
    by (rule initializedD)
  have get: "Get ego key h = Inl KeyError \<longleftrightarrow> key \<notin> dom (contents ego h)"
    using m by (auto simp: Get_Some split: option.splits)
  have "fst (Unset ego keys h) =
     (case fst (Unset_loop ego keys h) of Inl e \<Rightarrow> Inl e | Inr _ \<Rightarrow> Inr ego)"
    by (simp add: Unset_initialized [OF assms] split: prod.splits sum.splits)
  then have unset: "fst (Unset ego keys h) = Inl KeyError \<longleftrightarrow>
            \<not> (set keys \<subseteq> dom (contents ego h) \<and> distinct keys)"
    using m by (auto simp: Unset_loop_result [OF m(1)] split: if_splits)
  have pluck: "set keys \<subseteq> dom (contents ego h) \<longrightarrow>
            fst (Pluck ego keys h) = Inr (structCount h) \<and>
            initialized (structCount h) (snd (Pluck ego keys h)) \<and>
            contents (structCount h) (snd (Pluck ego keys h)) = contents ego h |` set keys \<and>
            unchanged h (snd (Pluck ego keys h))"
    by (simp add: Pluck_eq [OF assms] unchanged_alloc)
       (simp add: initialized_def contents_def getVal_def mapRead_def)
  show ?thesis
    using get unset Pluck_result [OF assms, of keys] pluck by blast
qed

theorem KeyError_iff_witness:
  "initialized 0 dict_ab \<and> set [''a''] \<subseteq> dom (contents 0 dict_ab) \<and>
   Get 0 ''z'' dict_ab = Inl KeyError \<and>
   fst (Pluck 0 [''a''] dict_ab) = Inr 1 \<and>
   contents 1 (snd (Pluck 0 [''a''] dict_ab)) = [''a'' \<mapsto> 1]"
proof -
  have r: "[''a'' \<mapsto> 1::int, ''b'' \<mapsto> 2] |` {''a''} = [''a'' \<mapsto> 1]"
    by (auto simp: restrict_map_def fun_eq_iff)
  have s: "structCount dict_ab = 1"
    by (simp add: dict_ab_eq)
  show ?thesis
    using KeyError_iff [OF dict_ab_initialized, of "''z''" "[''a'']"] r
    by (simp add: dict_ab_initialized dict_ab_contents s)
qed

text \<open>
  C4 as stated lets \<^verbatim>\<open>Unset\<close> fail only when some given key is absent.
  \<^verbatim>\<open>Unset("a", "a")\<close> on \<^verbatim>\<open>{"a": 1, "b": 2}\<close> fails with KeyError although the
  dictionary holds \<^verbatim>\<open>"a"\<close>.
\<close>

theorem Unset_repeated_key_fails_counterexample:
  "contents 0 dict_ab ''a'' = Some 1 \<and> fst (Unset 0 [''a'', ''a''] dict_ab) = Inl KeyError"
  by (simp add: Unset_result [OF dict_ab_initialized] dict_ab_contents)

subsection \<open>C5: Merge\<close>

text \<open>
  C5. For initialized dictionaries \<open>a\<close> and \<open>b\<close>, \<^verbatim>\<open>a.Merge(b)\<close> returns a new
  dictionary (a new struct with a new map object) that holds every field of \<open>a\<close> and every
  field of \<open>b\<close>, with the value of \<open>b\<close> at the keys of both (\<open>contents a h ++ contents b h\<close>).
  Every object that existed before the call is unchanged by it, \<open>a\<close> and \<open>b\<close> in
  particular. \<open>es_a\<close> and \<open>es_b\<close> are the orders in which the two loops visit the fields.
\<close>

theorem Merge_correct:
  assumes "initialized a h" and "initialized b h"
    and "is_range es_a (contents a h)" and "is_range es_b (contents b h)"
  shows "fst (Merge es_a es_b a b h) = Inr (structCount h) \<and>
         getVal (structCount h) (snd (Merge es_a es_b a b h)) = Some (mapCount h) \<and>
         initialized (structCount h) (snd (Merge es_a es_b a b h)) \<and>
         contents (structCount h) (snd (Merge es_a es_b a b h)) = contents a h ++ contents b h \<and>
         unchanged h (snd (Merge es_a es_b a b h)) \<and>
         contents a (snd (Merge es_a es_b a b h)) = contents a h \<and>
         contents b (snd (Merge es_a es_b a b h)) = contents b h"
  by (rule Merge_post [OF assms])

theorem Merge_correct_witness:
  "initialized 0 dict_fs \<and> initialized 1 dict_fs \<and>
   is_range [(''second'', 2), (''first'', 1)] (contents 0 dict_fs) \<and>
   is_range [(''third'', 3), (''second'', 20)] (contents 1 dict_fs) \<and>
   fst (Merge [(''second'', 2), (''first'', 1)] [(''third'', 3), (''second'', 20)] 0 1 dict_fs) = Inr 2 \<and>
   contents 2 (snd (Merge [(''second'', 2), (''first'', 1)] [(''third'', 3), (''second'', 20)] 0 1 dict_fs))
     = [''first'' \<mapsto> 1, ''second'' \<mapsto> 20, ''third'' \<mapsto> 3] \<and>
   contents 0 (snd (Merge [(''second'', 2), (''first'', 1)] [(''third'', 3), (''second'', 20)] 0 1 dict_fs))
     = [''first'' \<mapsto> 1, ''second'' \<mapsto> 2] \<and>
   contents 1 (snd (Merge [(''second'', 2), (''first'', 1)] [(''third'', 3), (''second'', 20)] 0 1 dict_fs))
     = [''second'' \<mapsto> 20, ''third'' \<mapsto> 3]"
proof -
  have i0: "initialized 0 dict_fs" and i1: "initialized 1 dict_fs"
    by (simp_all add: dict_fs_eq read_defs)
  have c0: "contents 0 dict_fs = [''first'' \<mapsto> 1, ''second'' \<mapsto> 2]"
    and c1: "contents 1 dict_fs = [''second'' \<mapsto> 20, ''third'' \<mapsto> 3]"
    by (simp_all add: dict_fs_eq read_defs)
  have r0: "is_range [(''second'', 2), (''first'', 1)] (contents 0 dict_fs)"
    unfolding c0 is_range_def by simp
  have r1: "is_range [(''third'', 3), (''second'', 20)] (contents 1 dict_fs)"
    unfolding c1 is_range_def by simp
  have m: "[''first'' \<mapsto> 1::int, ''second'' \<mapsto> 2] ++ [''second'' \<mapsto> 20, ''third'' \<mapsto> 3] =
           [''first'' \<mapsto> 1, ''second'' \<mapsto> 20, ''third'' \<mapsto> 3]"
    by (auto simp: fun_eq_iff map_add_def)
  have s: "structCount dict_fs = 2"
    by (simp add: dict_fs_eq)
  show ?thesis
    using Merge_correct [OF i0 i1 r0 r1] i0 i1 r0 r1
    unfolding c0 c1 m s by simp
qed

subsection \<open>C6: KeyExists\<close>

text \<open>
  C6, amended. On an initialized dictionary \<^verbatim>\<open>KeyExists\<close> does not fail: it returns
  true when the key is present and false when it is absent.
\<close>

theorem KeyExists_initialized:
  "initialized ego h \<Longrightarrow> KeyExists ego key h = Inr (key \<in> dom (contents ego h))"
  by (erule initializedD) (simp add: KeyExists_Some)

theorem KeyExists_initialized_witness:
  "initialized 0 dict_ab \<and> KeyExists 0 ''a'' dict_ab = Inr True \<and> KeyExists 0 ''z'' dict_ab = Inr False"
  using KeyExists_initialized [OF dict_ab_initialized, of "''a''"]
    KeyExists_initialized [OF dict_ab_initialized, of "''z''"]
  by (simp add: dict_ab_initialized dict_ab_contents)

text \<open>
  C6 as stated is about every dictionary. \<^verbatim>\<open>KeyExists\<close> begins with
  \<^verbatim>\<open>ego.assert()\<close>, so on \<^verbatim>\<open>NewDictFrom(nil)\<close> it fails with UninitializedError.
\<close>

theorem KeyExists_uninitialized_counterexample:
  "KeyExists 0 ''a'' dict_nil = Inl UninitializedError"
  by (simp add: dict_nil_eq KeyExists_def assert_def getVal_def)

subsection \<open>C7: MapDict\<close>

text \<open>
  C7. For an initialized dictionary \<open>d\<close> and a function \<open>fn\<close>, \<^verbatim>\<open>MapDict(d, fn)\<close>
  returns a new dictionary with the keys of \<open>d\<close>, whose value at each key \<open>k\<close> is
  \<open>fn k v\<close> for the value \<open>v\<close> that \<^verbatim>\<open>d.Get(k)\<close> returns. The store of \<open>d\<close> is the
  same after the call, and so is every object that existed in the store of the result.
\<close>

theorem MapDict_correct:
  assumes "initialized d hs" and "is_range es (contents d hs)"
  shows "fst (MapDict es d fn (hs, hn)) = Inr (structCount hn) \<and>
         fst (snd (MapDict es d fn (hs, hn))) = hs \<and>
         initialized (structCount hn) (snd (snd (MapDict es d fn (hs, hn)))) \<and>
         unchanged hn (snd (snd (MapDict es d fn (hs, hn)))) \<and>
         dom (contents (structCount hn) (snd (snd (MapDict es d fn (hs, hn))))) =
           dom (contents d hs) \<and>
         (\<forall>k v. Get d k hs = Inr v \<longrightarrow>
            contents (structCount hn) (snd (snd (MapDict es d fn (hs, hn)))) k = Some (fn k v))"
proof -
  let ?es' = "map (\<lambda>(k, v). (k, fn k v)) es"
  let ?h' = "hn\<lparr>maps := (maps hn)(mapCount hn := map_of (rev ?es')),
        mapCount := Suc (mapCount hn),
        structs := (structs hn)(structCount hn := Some (mapCount hn)),
        structCount := Suc (structCount hn)\<rparr>"
  from assms(1) obtain m where m: "getVal d hs = Some m" "contents d hs = maps hs m"
    by (rule initializedD)
  have eq: "MapDict es d fn (hs, hn) = (Inr (structCount hn), (hs, ?h'))"
    by (rule MapDict_eq [OF assms(1)])
  have d: "distinct (map fst ?es')"
    using assms(2) by (simp add: map_fst_map_keyed is_range_def del: map_map)
  have c: "contents (structCount hn) ?h' k = map_option (fn k) (contents d hs k)" for k
    using assms(2)
    by (simp add: contents_def getVal_def mapRead_def map_of_rev_distinct [OF d]
        map_of_map_keyed is_range_def)
  have dm: "dom (contents (structCount hn) ?h') = dom (contents d hs)"
    by (auto simp: c dom_def)
  have g: "Get d k hs = Inr v \<longrightarrow> contents (structCount hn) ?h' k = Some (fn k v)" for k v
    using m by (auto simp: c Get_Some split: option.splits)
  have i: "initialized (structCount hn) ?h'"
    by (simp add: initialized_def getVal_def)
  show ?thesis
    unfolding eq fst_conv snd_conv
    using dm g i unchanged_alloc [of hn] by blast
qed

theorem MapDict_correct_witness:
  "initialized 0 dict_ab \<and> is_range [(''b'', 2), (''a'', 1)] (contents 0 dict_ab) \<and>
   Get 0 ''b'' dict_ab = Inr 2 \<and>
   fst (MapDict [(''b'', 2), (''a'', 1)] 0 (\<lambda>k v. k @ replicate (nat v) CHR ''!'') (dict_ab, emptyHeap)) = Inr 0 \<and>
   fst (snd (MapDict [(''b'', 2), (''a'', 1)] 0 (\<lambda>k v. k @ replicate (nat v) CHR ''!'') (dict_ab, emptyHeap))) = dict_ab \<and>
   contents 0 (snd (snd (MapDict [(''b'', 2), (''a'', 1)] 0 (\<lambda>k v. k @ replicate (nat v) CHR ''!'')
       (dict_ab, emptyHeap)))) ''b'' = Some ''b!!''"
proof -
  have r: "is_range [(''b'', 2), (''a'', 1)] (contents 0 dict_ab)"
    by (simp add: dict_ab_contents is_range_def)
  have g: "Get 0 ''b'' dict_ab = Inr 2"
    by (simp add: dict_ab_eq Get_def checkKey_def KeyExists_def assert_def getVal_def mapRead_def mapIndex_def)
  have s: "structCount (emptyHeap :: (string, string) heap) = 0"
    by (simp add: emptyHeap_def)
  have n: "replicate (nat 2) CHR ''!'' = ''!!''"
    by (simp add: numeral_2_eq_2)
  note t = MapDict_correct [OF dict_ab_initialized r,
      of "\<lambda>k v. k @ replicate (nat v) CHR ''!''" emptyHeap, unfolded s]
  from t have a: "fst (MapDict [(''b'', 2), (''a'', 1)] 0 (\<lambda>k v. k @ replicate (nat v) CHR ''!'')
      (dict_ab, emptyHeap)) = Inr 0"
    by (rule conjunct1)
  from t have b: "fst (snd (MapDict [(''b'', 2), (''a'', 1)] 0 (\<lambda>k v. k @ replicate (nat v) CHR ''!'')
      (dict_ab, emptyHeap))) = dict_ab"
    by blast
  from t g have c: "contents 0 (snd (snd (MapDict [(''b'', 2), (''a'', 1)] 0
      (\<lambda>k v. k @ replicate (nat v) CHR ''!'') (dict_ab, emptyHeap)))) ''b'' =
      Some (''b'' @ replicate (nat 2) CHR ''!'')"
    by blast
  show ?thesis
    using dict_ab_initialized r g a b c unfolding n by simp
qed

subsection \<open>C8: String\<close>

text \<open>
  C8. For an initialized dictionary, \<^verbatim>\<open>String()\<close> returns an opening brace, the
  fields in the order \<open>es\<close> in which the loop visits them, each rendered as the text of the
  key, a colon and the text of the value, with a single comma between two fields and
  nothing else, and a closing brace; for an empty dictionary that is \<^verbatim>\<open>{}\<close>. The
  texts of keys and values are those of \<^verbatim>\<open>toString\<close>: \<^verbatim>\<open>null\<close> for nil, the
  quoted text for a string, \<^verbatim>\<open>true\<close> or \<^verbatim>\<open>false\<close> for a boolean, and the
  decimal numeral of its value for an integer of any of the nine types.
\<close>

theorem String_format:
  assumes "initialized ego h" and "is_range es (contents ego h)"
  shows "String Quote es ego h = ''{'' @ joinFields (map (renderField Quote) es) @ ''}'' \<and>
         (contents ego h = Map.empty \<longrightarrow> String Quote es ego h = ''{}'') \<and>
         toString Quote VNil = ''null'' \<and>
         toString Quote (VString s) = Quote s \<and>
         toString Quote (VBool True) = ''true'' \<and>
         toString Quote (VBool False) = ''false'' \<and>
         toString Quote (VInt i) = numeralText (sint i) \<and>
         toString Quote (VInt64 i64) = numeralText (sint i64) \<and>
         toString Quote (VInt32 i32) = numeralText (sint i32) \<and>
         toString Quote (VInt16 i16) = numeralText (sint i16) \<and>
         toString Quote (VInt8 i8) = numeralText (sint i8) \<and>
         toString Quote (VUint64 u64) = numeralText (uint u64) \<and>
         toString Quote (VUint32 u32) = numeralText (uint u32) \<and>
         toString Quote (VUint16 u16) = numeralText (uint u16) \<and>
         toString Quote (VUint8 u8) = numeralText (uint u8)"
proof -
  have s: "String Quote es ego h = ''{'' @ joinFields (map (renderField Quote) es) @ ''}''"
    by (rule String_eq [OF assms(2)])
  have e: "contents ego h = Map.empty \<longrightarrow> String Quote es ego h = ''{}''"
  proof
    assume "contents ego h = Map.empty"
    with assms(2) have "map_of es = Map.empty" by (simp add: is_range_def)
    then have "es = []" by simp
    then show "String Quote es ego h = ''{}''" using s by simp
  qed
  have signed: "toString Quote (VInt i) = numeralText (sint i)"
    "toString Quote (VInt64 i64) = numeralText (sint i64)"
    "toString Quote (VInt32 i32) = numeralText (sint i32)"
    "toString Quote (VInt16 i16) = numeralText (sint i16)"
    "toString Quote (VInt8 i8) = numeralText (sint i8)"
    by (simp_all add: Itoa_def FormatInt_numeralText sint_scast_32 sint_scast_16 sint_scast_8)
  have unsigned: "toString Quote (VUint64 u64) = numeralText (uint u64)"
    "toString Quote (VUint32 u32) = numeralText (uint u32)"
    "toString Quote (VUint16 u16) = numeralText (uint u16)"
    "toString Quote (VUint8 u8) = numeralText (uint u8)"
    by (simp_all add: FormatUint_numeralText uint_ucast_32 uint_ucast_16 uint_ucast_8)
  have prim: "toString Quote VNil = ''null''" "toString Quote (VString s) = Quote s"
    "toString Quote (VBool True) = ''true''" "toString Quote (VBool False) = ''false''"
    by (simp_all add: FormatBool_def)
  show ?thesis
    using s e signed unsigned prim by blast
qed

theorem String_format_witness:
  "initialized 0 dict_json \<and>
   is_range [(VString ''second'', VInt 2), (VString ''first'', VInt 1)] (contents 0 dict_json) \<and>
   String quoteAscii [(VString ''second'', VInt 2), (VString ''first'', VInt 1)] 0 dict_json =
     ''{'' @ quoteAscii ''second'' @ '':2,'' @ quoteAscii ''first'' @ '':1}''"
proof -
  have i: "initialized 0 dict_json"
    by (simp add: dict_json_eq read_defs)
  have c: "contents 0 dict_json = [VString ''first'' \<mapsto> VInt 1, VString ''second'' \<mapsto> VInt 2]"
    by (simp add: dict_json_eq read_defs)
  have r: "is_range [(VString ''second'', VInt 2), (VString ''first'', VInt 1)] (contents 0 dict_json)"
    unfolding c is_range_def by simp
  from String_format [OF i r, of quoteAscii]
  have "String quoteAscii [(VString ''second'', VInt 2), (VString ''first'', VInt 1)] 0 dict_json =
     ''{'' @ joinFields (map (renderField quoteAscii)
        [(VString ''second'', VInt 2), (VString ''first'', VInt 1)]) @ ''}''"
    by (rule conjunct1)
  then show ?thesis
    using i r by (simp add: renderField_def quoteAscii_def Itoa_def FormatInt_def decimal_small)
qed

subsection \<open>C9: Equals is not symmetric\<close>

text \<open>
  C9. The dictionaries \<^verbatim>\<open>a = {"x": 0, "y": 1}\<close> and \<^verbatim>\<open>b = {"y": 1, "z": 5}\<close> are
  initialized and have two fields each; \<^verbatim>\<open>a.Equals(b)\<close> is true, because the key
  \<^verbatim>\<open>"x"\<close>, absent from \<open>b\<close>, is compared with the zero value, and
  \<^verbatim>\<open>b.Equals(a)\<close> is false, in whatever order the loops visit the fields.
\<close>

theorem Equals_not_symmetric:
  assumes "is_range es_a (contents 0 dict_xy)" and "is_range es_b (contents 1 dict_xy)"
  shows "initialized 0 dict_xy \<and> initialized 1 dict_xy \<and>
         Count 0 dict_xy = Inr 2 \<and> Count 1 dict_xy = Inr 2 \<and>
         Equals eqPlain es_a 0 1 dict_xy = Inr True \<and> Equals eqPlain es_b 1 0 dict_xy = Inr False"
proof -
  have i0: "initialized 0 dict_xy" and i1: "initialized 1 dict_xy"
    by (simp_all add: dict_xy_eq read_defs)
  have c0: "contents 0 dict_xy = [''x'' \<mapsto> 0, ''y'' \<mapsto> 1]"
    and c1: "contents 1 dict_xy = [''y'' \<mapsto> 1, ''z'' \<mapsto> 5]"
    by (simp_all add: dict_xy_eq read_defs)
  have n: "Count 0 dict_xy = Inr 2" "Count 1 dict_xy = Inr 2"
    unfolding Count_initialized [OF i0] Count_initialized [OF i1] c0 c1
    by (simp_all add: len_def)
  have ab: "Equals eqPlain es_a 0 1 dict_xy = Inr True"
    unfolding Equals_initialized [OF i0 i1 assms(1)] c0 c1
    by (simp add: len_def mapIndex_def)
  have ba: "Equals eqPlain es_b 1 0 dict_xy = Inr False"
    unfolding Equals_initialized [OF i1 i0 assms(2)] c0 c1
    by (simp add: len_def mapIndex_def)
  show ?thesis
    using i0 i1 n ab ba by blast
qed

theorem Equals_not_symmetric_witness:
  "is_range [(''y'', 1), (''x'', 0)] (contents 0 dict_xy) \<and>
   is_range [(''z'', 5), (''y'', 1)] (contents 1 dict_xy) \<and>
   Equals eqPlain [(''y'', 1), (''x'', 0)] 0 1 dict_xy = Inr True \<and>
   Equals eqPlain [(''z'', 5), (''y'', 1)] 1 0 dict_xy = Inr False"
proof -
  have c0: "contents 0 dict_xy = [''x'' \<mapsto> 0, ''y'' \<mapsto> 1]"
    and c1: "contents 1 dict_xy = [''y'' \<mapsto> 1, ''z'' \<mapsto> 5]"
    by (simp_all add: dict_xy_eq read_defs)
  have r0: "is_range [(''y'', 1), (''x'', 0)] (contents 0 dict_xy)"
    unfolding c0 is_range_def by simp
  have r1: "is_range [(''z'', 5), (''y'', 1)] (contents 1 dict_xy)"
    unfolding c1 is_range_def by simp
  show ?thesis
    using Equals_not_symmetric [OF r0 r1] r0 r1 by blast
qed

subsection \<open>C10: the empty dictionary and Merge\<close>

text \<open>
  C10, amended. For an initialized dictionary \<open>d\<close> whose values are equal to themselves
  under the operator \<^verbatim>\<open>==\<close> of the value type (\<open>eq v v\<close> returns true for every value
  \<open>v\<close> of \<open>d\<close>), and a new empty dictionary \<open>e\<close>, both \<^verbatim>\<open>d.Merge(e)\<close> and
  \<^verbatim>\<open>e.Merge(d)\<close> return a dictionary \<open>r\<close> for which \<^verbatim>\<open>r.Equals(d)\<close> is true, in
  whatever order the loops visit the fields.
\<close>

theorem Merge_empty_identity:
  assumes "initialized d h" and "is_range es (contents d h)" and "NewDict h = (e, h1)"
    and "\<forall>k v. contents d h k = Some v \<longrightarrow> eq v v = Inr True"
  shows "(\<exists>r h2. Merge es [] d e h1 = (Inr r, h2) \<and>
            (\<forall>er. is_range er (contents r h2) \<longrightarrow> Equals eq er r d h2 = Inr True)) \<and>
         (\<exists>r h2. Merge [] es e d h1 = (Inr r, h2) \<and>
            (\<forall>er. is_range er (contents r h2) \<longrightarrow> Equals eq er r d h2 = Inr True))"
proof -
  have e: "e = structCount h" and h1: "h1 = snd (NewDict h)"
    using assms(3) by (auto simp: NewDict_eq)
  have u: "unchanged h h1"
    unfolding h1 NewDict_eq snd_conv by (rule unchanged_alloc)
  have ie: "initialized e h1"
    by (simp add: e h1 NewDict_eq initialized_def getVal_def)
  have ce: "contents e h1 = Map.empty"
    by (simp add: e h1 NewDict_eq contents_def getVal_def mapRead_def)
  have id: "initialized d h1"
    by (rule unchanged_initialized [OF u assms(1)])
  have cd: "contents d h1 = contents d h"
    by (rule unchanged_contents [OF u assms(1)])
  have rd: "is_range es (contents d h1)"
    using assms(2) by (simp add: cd)
  have re: "is_range [] (contents e h1)"
    by (simp add: ce is_range_def)
  have refl: "eq v v = Inr True" if "contents d h1 k = Some v" for k v
    using assms(4) that by (simp add: cd)
  have same: "Equals eq er r d h2 = Inr True"
    if "initialized r h2" "initialized d h2" "contents r h2 = contents d h2"
      "is_range er (contents r h2)" "contents d h2 = contents d h1" for er r h2
  proof (rule Equals_same [OF that(1) that(2) that(4) that(3)])
    fix k v
    assume "contents r h2 k = Some v"
    then have "contents d h1 k = Some v"
      using that(3) that(5) by simp
    then show "eq v v = Inr True"
      by (rule refl)
  qed
  have "\<exists>r h2. Merge es_a es_b a b h1 = (Inr r, h2) \<and>
          (\<forall>er. is_range er (contents r h2) \<longrightarrow> Equals eq er r d h2 = Inr True)"
    if a: "initialized a h1" and b: "initialized b h1"
      and ra: "is_range es_a (contents a h1)" and rb: "is_range es_b (contents b h1)"
      and c: "contents a h1 ++ contents b h1 = contents d h1"
    for es_a es_b a b
  proof -
    let ?r = "structCount h1" and ?h2 = "snd (Merge es_a es_b a b h1)"
    note m = Merge_post [OF a b ra rb]
    from m have u2: "unchanged h1 ?h2" by blast
    have "Merge es_a es_b a b h1 = (Inr ?r, ?h2)"
      using m by (cases "Merge es_a es_b a b h1") simp
    moreover have "Equals eq er ?r d ?h2 = Inr True" if "is_range er (contents ?r ?h2)" for er
    proof (rule same [OF _ _ _ that])
      show "initialized ?r ?h2" using m by blast
      show "initialized d ?h2"
        by (rule unchanged_initialized [OF u2 id])
      show "contents ?r ?h2 = contents d ?h2"
        using m c unchanged_contents [OF u2 id] by simp
      show "contents d ?h2 = contents d h1"
        by (rule unchanged_contents [OF u2 id])
    qed
    ultimately show ?thesis by blast
  qed
  from this [OF id ie rd re] this [OF ie id re rd] show ?thesis
    by (simp add: ce)
qed

theorem Merge_empty_identity_witness:
  "initialized 0 dict_ab \<and> is_range [(''b'', 2), (''a'', 1)] (contents 0 dict_ab) \<and>
   fst (NewDict dict_ab) = 1 \<and>
   eqPlain (1::int) 1 = Inr True \<and> eqPlain (2::int) 2 = Inr True \<and>
   fst (Merge [(''b'', 2), (''a'', 1)] [] 0 1 (snd (NewDict dict_ab))) = Inr 2 \<and>
   is_range [(''b'', 2), (''a'', 1)]
     (contents 2 (snd (Merge [(''b'', 2), (''a'', 1)] [] 0 1 (snd (NewDict dict_ab))))) \<and>
   Equals eqPlain [(''b'', 2), (''a'', 1)] 2 0
     (snd (Merge [(''b'', 2), (''a'', 1)] [] 0 1 (snd (NewDict dict_ab)))) = Inr True \<and>
   fst (Merge [] [(''b'', 2), (''a'', 1)] 1 0 (snd (NewDict dict_ab))) = Inr 2 \<and>
   is_range [(''b'', 2), (''a'', 1)]
     (contents 2 (snd (Merge [] [(''b'', 2), (''a'', 1)] 1 0 (snd (NewDict dict_ab))))) \<and>
   Equals eqPlain [(''b'', 2), (''a'', 1)] 2 0
     (snd (Merge [] [(''b'', 2), (''a'', 1)] 1 0 (snd (NewDict dict_ab)))) = Inr True"
proof -
  let ?es = "[(''b'', 2::int), (''a'', 1)]"
  let ?h1 = "snd (NewDict dict_ab)"
  have r: "is_range ?es (contents 0 dict_ab)"
    by (simp add: dict_ab_contents is_range_def)
  have nd: "NewDict dict_ab = (1, ?h1)"
    by (simp add: NewDict_eq dict_ab_eq)
  have i0: "initialized 0 ?h1" and i1: "initialized 1 ?h1"
    by (simp_all add: NewDict_eq dict_ab_eq read_defs)
  have c0: "contents 0 ?h1 = [''a'' \<mapsto> 1, ''b'' \<mapsto> 2]" and c1: "contents 1 ?h1 = Map.empty"
    by (simp_all add: NewDict_eq dict_ab_eq read_defs)
  have r0: "is_range ?es (contents 0 ?h1)" and r1: "is_range [] (contents 1 ?h1)"
    unfolding c0 c1 is_range_def by simp_all
  have s: "structCount ?h1 = 2"
    by (simp add: NewDict_eq dict_ab_eq)
  have q: "\<forall>k v. contents 0 dict_ab k = Some v \<longrightarrow> eqPlain v v = Inr True"
    by (simp add: eqPlain_def)
  note t = Merge_empty_identity [where eq = eqPlain, OF dict_ab_initialized r nd q]
  from t obtain ra ha where a: "Merge ?es [] 0 1 ?h1 = (Inr ra, ha)"
    and ea: "\<forall>er. is_range er (contents ra ha) \<longrightarrow> Equals eqPlain er ra 0 ha = Inr True"
    by blast
  from t obtain rb hb where b: "Merge [] ?es 1 0 ?h1 = (Inr rb, hb)"
    and eb: "\<forall>er. is_range er (contents rb hb) \<longrightarrow> Equals eqPlain er rb 0 hb = Inr True"
    by blast
  have pa: "ra = 2" "is_range ?es (contents ra ha)"
    using Merge_post [OF i0 i1 r0 r1] r0 unfolding a s c0 c1 by simp_all
  have pb: "rb = 2" "is_range ?es (contents rb hb)"
    using Merge_post [OF i1 i0 r1 r0] r0 unfolding b s c0 c1 by simp_all
  have "Equals eqPlain ?es 2 0 ha = Inr True" "Equals eqPlain ?es 2 0 hb = Inr True" "rb = 2"
    "is_range ?es (contents 2 ha)" "is_range ?es (contents 2 hb)"
    using ea eb pa pb by blast+
  moreover have "fst (NewDict dict_ab) = 1"
    by (simp add: NewDict_eq dict_ab_eq)
  ultimately show ?thesis
    using dict_ab_initialized r by (simp add: a b pa eqPlain_def del: One_nat_def)
qed

text \<open>
  C10 as stated is about every initialized dictionary. For \<^verbatim>\<open>d = {"a": NaN}\<close> of type
  \<^verbatim>\<open>Dict[string, float64]\<close> both merges return a dictionary with the field of \<open>d\<close>, and
  \<^verbatim>\<open>Equals\<close> returns false on it, because \<^verbatim>\<open>NaN != NaN\<close> is true.
\<close>

theorem Merge_empty_NaN_counterexample:
  "initialized 0 dict_nan \<and> is_range [(''a'', NaN)] (contents 0 dict_nan) \<and>
   fst (NewDict dict_nan) = 1 \<and>
   fst (Merge [(''a'', NaN)] [] 0 1 (snd (NewDict dict_nan))) = Inr 2 \<and>
   is_range [(''a'', NaN)]
     (contents 2 (snd (Merge [(''a'', NaN)] [] 0 1 (snd (NewDict dict_nan))))) \<and>
   Equals eqFloat64 [(''a'', NaN)] 2 0
     (snd (Merge [(''a'', NaN)] [] 0 1 (snd (NewDict dict_nan)))) = Inr False \<and>
   fst (Merge [] [(''a'', NaN)] 1 0 (snd (NewDict dict_nan))) = Inr 2 \<and>
   is_range [(''a'', NaN)]
     (contents 2 (snd (Merge [] [(''a'', NaN)] 1 0 (snd (NewDict dict_nan))))) \<and>
   Equals eqFloat64 [(''a'', NaN)] 2 0
     (snd (Merge [] [(''a'', NaN)] 1 0 (snd (NewDict dict_nan)))) = Inr False"
proof -
  let ?h1 = "snd (NewDict dict_nan)"
  have i0: "initialized 0 ?h1" and i1: "initialized 1 ?h1"
    by (simp_all add: NewDict_eq dict_nan_eq read_defs)
  show ?thesis
    unfolding Merge_eq [OF i0 i1] Merge_eq [OF i1 i0] fst_conv snd_conv
    by (simp add: NewDict_eq dict_nan_eq read_defs Equals_def Count_def assert_def len_def
        mapIndex_def eqFloat64_def)
qed

end
